theory Spec2Isabelle
  imports Complex_Main "HOL-Library.Sublist" "HOL-Library.AList" "HOL-Library.Multiset"
begin

section \<open>Python values and exceptions\<close>

text \<open>
  The service in \<^verbatim>\<open>backend/app/services/gpt_service.py\<close> works on Python dictionaries,
  strings and JSON documents. Strings are byte lists (the UTF-8 encoding of the Python
  string), a decoded JSON document is a \<open>pyval\<close>, and an exception is a value of \<open>exn\<close>
  carrying the text that \<^verbatim>\<open>str(e)\<close> returns. Floats are modelled by the rational they
  denote (NaN and the infinities are outside the model).
\<close>

datatype pyval =
    PNone
  | PBool bool
  | PInt int
  | PFloat rat
  | PStr string
  | PList "pyval list"
  | PDict "(string \<times> pyval) list"

datatype exn =
    ValueError string
  | AttributeError string
  | TypeError string
  | JSONDecodeError string
  | TimeoutError
  | Exception string

fun str_exn :: "exn \<Rightarrow> string" where
  "str_exn (ValueError m) = m"
| "str_exn (AttributeError m) = m"
| "str_exn (TypeError m) = m"
| "str_exn (JSONDecodeError m) = m"
| "str_exn TimeoutError = []"
| "str_exn (Exception m) = m"

text \<open>Truthiness (\<^verbatim>\<open>if x:\<close>, \<^verbatim>\<open>x or y\<close>) and \<^verbatim>\<open>type(x).__name__\<close>.\<close>

fun py_truthy :: "pyval \<Rightarrow> bool" where
  "py_truthy PNone = False"
| "py_truthy (PBool b) = b"
| "py_truthy (PInt i) = (i \<noteq> 0)"
| "py_truthy (PFloat r) = (r \<noteq> 0)"
| "py_truthy (PStr s) = (s \<noteq> [])"
| "py_truthy (PList xs) = (xs \<noteq> [])"
| "py_truthy (PDict kvs) = (kvs \<noteq> [])"

fun py_type_name :: "pyval \<Rightarrow> string" where
  "py_type_name PNone = ''NoneType''"
| "py_type_name (PBool b) = ''bool''"
| "py_type_name (PInt i) = ''int''"
| "py_type_name (PFloat r) = ''float''"
| "py_type_name (PStr s) = ''str''"
| "py_type_name (PList xs) = ''list''"
| "py_type_name (PDict kvs) = ''dict''"

text \<open>\<^verbatim>\<open>d.get(key, default)\<close> and \<^verbatim>\<open>key in d\<close> on a decoded JSON object.\<close>

definition dict_get :: "(string \<times> pyval) list \<Rightarrow> string \<Rightarrow> pyval \<Rightarrow> pyval" where
  "dict_get d k dflt = (case map_of d k of None \<Rightarrow> dflt | Some v \<Rightarrow> v)"

definition dict_has :: "(string \<times> pyval) list \<Rightarrow> string \<Rightarrow> bool" where
  "dict_has d k = (map_of d k \<noteq> None)"

section \<open>String operations of the Python library\<close>

definition isspace :: "char \<Rightarrow> bool" where
  "isspace c = (c \<in> set [CHR 0x09, CHR 0x0A, CHR 0x0B, CHR 0x0C, CHR 0x0D,
                           CHR 0x1C, CHR 0x1D, CHR 0x1E, CHR 0x1F, CHR 0x20])"

definition py_lstrip :: "string \<Rightarrow> string" where
  "py_lstrip s = dropWhile isspace s"

definition py_rstrip :: "string \<Rightarrow> string" where
  "py_rstrip s = rev (dropWhile isspace (rev s))"

definition py_strip :: "string \<Rightarrow> string" where
  "py_strip s = py_rstrip (py_lstrip s)"

text \<open>\<^verbatim>\<open>s.lstrip(chars)\<close> and \<^verbatim>\<open>s.rstrip(chars)\<close> with an explicit character set.\<close>

definition lstrip_chars :: "string \<Rightarrow> string \<Rightarrow> string" where
  "lstrip_chars chars s = dropWhile (\<lambda>c. c \<in> set chars) s"


text \<open>\<^verbatim>\<open>s.find(sub)\<close> and \<^verbatim>\<open>s.rfind(sub)\<close>; \<open>None\<close> stands for the result \<open>-1\<close>.\<close>

primrec py_find :: "string \<Rightarrow> string \<Rightarrow> nat option" where
  "py_find sub [] = (if sub = [] then Some 0 else None)"
| "py_find sub (c # cs) =
     (if prefix sub (c # cs) then Some 0 else map_option Suc (py_find sub cs))"


definition py_contains :: "string \<Rightarrow> string \<Rightarrow> bool" where
  "py_contains sub s = (py_find sub s \<noteq> None)"

definition lower_char :: "char \<Rightarrow> char" where
  "lower_char c =
     (if (65 :: nat) \<le> of_char c \<and> of_char c \<le> (90 :: nat)
      then char_of (of_char c + (32 :: nat)) else c)"

definition py_lower :: "string \<Rightarrow> string" where
  "py_lower s = map lower_char s"

section \<open>Prompt Resolver\<close>

text \<open>
  The start marker as the source file spells it: \<^verbatim>\<open>"### "\<close>, three non-ASCII code points
  (UTF-8 bytes C3 B0, C5 B8, E2 80 9D) and \<^verbatim>\<open>" **ANALYSIS RULES**"\<close>.
\<close>

definition start_marker :: string where
  "start_marker =
     ''### '' @ [CHR 0xC3, CHR 0xB0, CHR 0xC5, CHR 0xB8, CHR 0xE2, CHR 0x80, CHR 0x9D]
       @ '' **ANALYSIS RULES**''"

definition end_marker :: string where
  "end_marker = [CHR 0x0A] @ ''---'' @ [CHR 0x0A]"

definition section_marker :: string where
  "section_marker = [CHR 0x0A] @ ''### ''"

definition newline_chars :: string where
  "newline_chars = [CHR 0x0A, CHR 0x0D]"

text \<open>
  \<^verbatim>\<open>GPTService._build_full_prompt\<close>, with the template (\<^verbatim>\<open>self.prompt_template\<close>) as an
  argument.
\<close>

definition build_full_prompt :: "string \<Rightarrow> string \<Rightarrow> string" where
  "build_full_prompt full_template analysis_rules_content =
     (case py_find start_marker full_template of
        None \<Rightarrow> full_template
      | Some start_idx \<Rightarrow>
          let content_start = start_idx + length start_marker;
              remaining = lstrip_chars newline_chars (drop content_start full_template);
              before = take content_start full_template
          in (case py_find end_marker remaining of
                Some end_idx \<Rightarrow>
                  before @ [CHR 0x0A, CHR 0x0A] @ analysis_rules_content @ drop end_idx remaining
              | None \<Rightarrow>
                  (case py_find section_marker remaining of
                     Some end_idx \<Rightarrow>
                       before @ [CHR 0x0A, CHR 0x0A] @ analysis_rules_content
                         @ drop end_idx remaining
                   | None \<Rightarrow>
                       before @ [CHR 0x0A, CHR 0x0A] @ analysis_rules_content @ [CHR 0x0A]
                         @ remaining)))"







section \<open>Batch planning\<close>

text \<open>
  The planning loop of \<^verbatim>\<open>batch_analyze_frames\<close>:
  \<^verbatim>\<open>for i in range(0, len(frames), effective_batch_size): batch = frames[i:i + effective_batch_size]\<close>.
  A step of zero makes \<^verbatim>\<open>range\<close> raise, a negative step gives the empty range.
\<close>

function split_loop :: "nat \<Rightarrow> nat \<Rightarrow> 'a list \<Rightarrow> 'a list list" where
  "split_loop i step frames =
     (if step = 0 \<or> length frames \<le> i then []
      else take step (drop i frames) # split_loop (i + step) step frames)"
  by pat_completeness auto
termination
  by (relation "measure (\<lambda>(i, step, frames). length frames - i)") auto

declare split_loop.simps [simp del]

definition split_batches :: "'a list \<Rightarrow> int \<Rightarrow> exn + 'a list list" where
  "split_batches frames step =
     (if step = 0 then Inl (ValueError ''range() arg 3 must not be zero'')
      else if step < 0 then Inr []
      else Inr (split_loop 0 (nat step) frames))"

definition effective_batch_size :: "bool \<Rightarrow> int \<Rightarrow> int" where
  "effective_batch_size use_custom batch_size =
     (if use_custom then min batch_size 2 else batch_size)"

definition plan_batches :: "bool \<Rightarrow> 'a list \<Rightarrow> int \<Rightarrow> exn + 'a list list" where
  "plan_batches use_custom frames batch_size =
     split_batches frames (effective_batch_size use_custom batch_size)"

text \<open>A small template with the start marker and the end separator, used in examples.\<close>

definition demo_template :: string where
  "demo_template = ''Intro'' @ [CHR 0x0A] @ start_marker @ [CHR 0x0A, CHR 0x0A] @ ''old rules''
     @ end_marker @ ''Output: JSON''"


section \<open>Frames, the service and its environment\<close>

text \<open>
  The value under the key \<^verbatim>\<open>timestamp\<close> of a frame: \<^verbatim>\<open>None\<close> or a number. Values of
  other types are outside the model.
\<close>

datatype tsval = TsNone | TsNum rat

text \<open>
  A frame is the dictionary that the pipeline reads and updates in place. Each field is
  one key; \<open>None\<close> means that the key is absent (for the two paths also that it holds
  \<^verbatim>\<open>None\<close>: the pipeline reads them with \<^verbatim>\<open>or\<close> only). Keys that the pipeline never
  touches live in the record's extension. Frames are values here: two entries of a frame
  list never share one dictionary object.
\<close>

record frame =
  image_path :: "string option"
  frame_path :: "string option"
  timestamp :: "tsval option"
  description :: "pyval option"
  ocr_text :: "pyval option"
  meta_tags :: "pyval option"
  processing_time_ms :: "int option"
  gpt_response :: "pyval option"
  error :: "string option"

text \<open>
  The fields of \<^verbatim>\<open>GPTService\<close> that the pipeline reads: \<open>client\<close> says whether
  \<^verbatim>\<open>self.client\<close> exists (a system API key was configured).
\<close>

record service =
  use_custom_gpt :: bool
  client :: bool
  prompt_template :: string

text \<open>The arguments \<^verbatim>\<open>user_id\<close> and \<^verbatim>\<open>db\<close> (\<open>db\<close>: a session was passed).\<close>

record caller =
  user_id :: "string option"
  db :: bool

datatype openai_client = SystemClient | UserClient string

text \<open>
  One request to the model. The prompt text of a batch call is determined by the batch
  size, the timestamps and, for a caller with custom rules, the resolved template; the
  images are the bytes read from the frame files (the base64 encoding is injective).
\<close>

record payload =
  pl_instructions :: "string option"
  pl_frame_count :: nat
  pl_timestamps :: "tsval list"
  pl_images :: "string list"
  pl_max_tokens :: nat

text \<open>
  The reply of the custom HTTP endpoint: a response whose
  \<^verbatim>\<open>choices[0].message.content\<close> is the given text (\<open>None\<close> for a null content), a
  status 413, or any other exception of the transport (or of reading a response body
  that has not the wire shape).
\<close>

datatype http_reply = HttpOk "string option" | Http413 | HttpError exn

text \<open>
  Everything outside the service: the settings re-read at run time, the user table, the
  file system, \<^verbatim>\<open>json.loads\<close> (\<open>Inl\<close> carries the message of the \<^verbatim>\<open>JSONDecodeError\<close>), the
  two transports, the clock, the event loop and the text of the \<^verbatim>\<open>TypeError\<close> of
  \<^verbatim>\<open>list.sort\<close>. The transports and the clock are indexed by the number of model calls
  made before, so that the same request may be answered differently the second time.
  The event loop decides which of the batch tasks that have not run yet runs next:
  \<open>scheduler\<close> gets their indices and names a position in that list (taken modulo its
  length). The text of the \<^verbatim>\<open>TypeError\<close> names the types of the two sort keys whose
  comparison failed; which two they are is a matter of the sorting algorithm.
\<close>

record env =
  settings_custom_gpt :: bool
  user_api_key :: "string \<Rightarrow> bool"
  user_rules :: "string \<Rightarrow> string option"
  read_file :: "string \<Rightarrow> exn + string"
  json_loads :: "string \<Rightarrow> string + pyval"
  custom_post :: "nat \<Rightarrow> payload \<Rightarrow> http_reply"
  openai_create :: "openai_client \<Rightarrow> nat \<Rightarrow> payload \<Rightarrow> exn + string option"
  elapsed_ms :: "nat \<Rightarrow> int"
  scheduler :: "nat list \<Rightarrow> nat"
  sort_error :: "tsval list \<Rightarrow> string"

text \<open>\<^verbatim>\<open>user_id and db\<close>: the user id when both are given and the id is not empty.\<close>

definition user_and_db :: "caller \<Rightarrow> string option" where
  "user_and_db c =
     (case user_id c of
        None \<Rightarrow> None
      | Some uid \<Rightarrow> if uid \<noteq> [] \<and> db c then Some uid else None)"

text \<open>\<^verbatim>\<open>GPTService._get_openai_client\<close>.\<close>

definition get_openai_client :: "env \<Rightarrow> service \<Rightarrow> caller \<Rightarrow> openai_client option" where
  "get_openai_client e svc c =
     (if use_custom_gpt svc then None
      else (case user_and_db c of
              Some uid \<Rightarrow>
                if user_api_key e uid then Some (UserClient uid)
                else if client svc then Some SystemClient else None
            | None \<Rightarrow> if client svc then Some SystemClient else None))"

text \<open>\<^verbatim>\<open>GPTService.get_prompt_template\<close>.\<close>

definition get_prompt_template :: "env \<Rightarrow> service \<Rightarrow> caller \<Rightarrow> string" where
  "get_prompt_template e svc c =
     (case user_and_db c of
        Some uid \<Rightarrow>
          (case user_rules e uid of
             Some custom_analysis_rules \<Rightarrow>
               if custom_analysis_rules \<noteq> []
               then build_full_prompt (prompt_template svc) custom_analysis_rules
               else prompt_template svc
           | None \<Rightarrow> prompt_template svc)
      | None \<Rightarrow> prompt_template svc)"

text \<open>\<^verbatim>\<open>GPTService._call_custom_gpt\<close>.\<close>

definition payload_too_large :: string where
  "payload_too_large = ''Request payload too large (413). Batch size needs to be reduced.''"

definition call_custom_gpt :: "env \<Rightarrow> nat \<Rightarrow> payload \<Rightarrow> exn + string option" where
  "call_custom_gpt e n p =
     (case custom_post e n p of
        HttpOk content \<Rightarrow> Inr content
      | Http413 \<Rightarrow> Inl (Exception payload_too_large)
      | HttpError ex \<Rightarrow> Inl ex)"

section \<open>Analysis of one batch\<close>

text \<open>\<^verbatim>\<open>frame.get("image_path") or frame.get("frame_path")\<close>, \<open>None\<close> when the result is falsy.\<close>

definition frame_image :: "'a frame_scheme \<Rightarrow> string option" where
  "frame_image f =
     (case image_path f of
        Some p \<Rightarrow> if p \<noteq> [] then Some p
                  else (case frame_path f of
                          Some q \<Rightarrow> if q \<noteq> [] then Some q else None
                        | None \<Rightarrow> None)
      | None \<Rightarrow> (case frame_path f of
                   Some q \<Rightarrow> if q \<noteq> [] then Some q else None
                 | None \<Rightarrow> None))"

text \<open>What identifies a frame and is never written by the pipeline.\<close>

definition frame_source ::
  "'a frame_scheme \<Rightarrow> string option \<times> string option \<times> tsval option \<times> 'a" where
  "frame_source f = (image_path f, frame_path f, timestamp f, frame.more f)"

text \<open>The image loop: a frame without a path is skipped, a failing read raises.\<close>

fun collect_images :: "env \<Rightarrow> 'a frame_scheme list \<Rightarrow> exn + string list" where
  "collect_images e [] = Inr []"
| "collect_images e (f # fs) =
     (case frame_image f of
        None \<Rightarrow> collect_images e fs
      | Some p \<Rightarrow>
          (case read_file e p of
             Inl ex \<Rightarrow> Inl ex
           | Inr image_data \<Rightarrow>
               (case collect_images e fs of
                  Inl ex \<Rightarrow> Inl ex
                | Inr rest \<Rightarrow> Inr (image_data # rest))))"

text \<open>\<^verbatim>\<open>frame.get("timestamp", 0)\<close>: the default stands in for an absent key only.\<close>

definition ts_key :: "'a frame_scheme \<Rightarrow> tsval" where
  "ts_key f = (case timestamp f of None \<Rightarrow> TsNum 0 | Some v \<Rightarrow> v)"

definition batch_payload ::
  "env \<Rightarrow> service \<Rightarrow> caller \<Rightarrow> 'a frame_scheme list \<Rightarrow> string list \<Rightarrow> payload" where
  "batch_payload e svc c frames_batch image_contents =
     (let template = get_prompt_template e svc c
      in \<lparr> pl_instructions =
             (if user_and_db c \<noteq> None \<and> template \<noteq> prompt_template svc
              then Some template else None),
           pl_frame_count = length frames_batch,
           pl_timestamps = map ts_key frames_batch,
           pl_images = image_contents,
           pl_max_tokens = 4000 \<rparr>)"

text \<open>A text between single quotes, as in the messages of the interpreter.\<close>

definition quoted :: "string \<Rightarrow> string" where
  "quoted s = [CHR 0x27] @ s @ [CHR 0x27]"

definition timed_out :: string where
  "timed_out = ''GPT API call timed out after 5 minutes. Batch may be too large or API is slow.''"

text \<open>
  The model call of a batch under \<^verbatim>\<open>asyncio.wait_for\<close>: a \<^verbatim>\<open>TimeoutError\<close> is re-raised
  as a plain exception with a fixed text.
\<close>

definition call_batch_model ::
  "env \<Rightarrow> service \<Rightarrow> caller \<Rightarrow> nat \<Rightarrow> payload \<Rightarrow> exn + string option" where
  "call_batch_model e svc c n p =
     (let outcome =
            (if use_custom_gpt svc then call_custom_gpt e n p
             else (case get_openai_client e svc c of
                     Some cl \<Rightarrow> openai_create e cl n p
                   | None \<Rightarrow> Inl (AttributeError
                       (quoted ''NoneType'' @ '' object has no attribute '' @ quoted ''chat''))))
      in (case outcome of
            Inl TimeoutError \<Rightarrow> Inl (Exception timed_out)
          | Inl ex \<Rightarrow> Inl ex
          | Inr content \<Rightarrow> Inr content))"

text \<open>The four dictionary updates of \<^verbatim>\<open>analyze_frame_batch\<close>.\<close>

definition apply_result ::
  "(string \<times> pyval) list \<Rightarrow> int \<Rightarrow> 'a frame_scheme \<Rightarrow> 'a frame_scheme" where
  "apply_result result per_frame_ms f =
     f\<lparr> description := Some (dict_get result ''description'' (PStr [])),
        ocr_text := Some (dict_get result ''ocr_text'' PNone),
        meta_tags := Some (dict_get result ''meta_tags'' (PList [])),
        processing_time_ms := Some per_frame_ms,
        gpt_response := Some (PDict result) \<rparr>"

definition missing_result :: string where
  "missing_result = ''Missing result in batch response''"

definition mark_missing :: "'a frame_scheme \<Rightarrow> 'a frame_scheme" where
  "mark_missing f =
     f\<lparr> description := Some (PStr ''No analysis result''),
        ocr_text := Some PNone,
        meta_tags := Some (PList []),
        processing_time_ms := Some 0,
        error := Some missing_result \<rparr>"

definition mark_parse_error :: "string \<Rightarrow> int \<Rightarrow> 'a frame_scheme \<Rightarrow> 'a frame_scheme" where
  "mark_parse_error msg per_frame_ms f =
     f\<lparr> description := Some (PStr (''Error parsing batch response: '' @ msg)),
        ocr_text := Some PNone,
        meta_tags := Some (PList []),
        processing_time_ms := Some per_frame_ms,
        error := Some msg \<rparr>"

definition mark_batch_error :: "exn \<Rightarrow> 'a frame_scheme \<Rightarrow> 'a frame_scheme" where
  "mark_batch_error ex f =
     f\<lparr> description := Some (PStr (''Error in batch analysis: '' @ str_exn ex)),
        ocr_text := Some PNone,
        meta_tags := Some (PList []),
        processing_time_ms := Some 0,
        error := Some (str_exn ex) \<rparr>"

text \<open>
  The shape dispatch on the decoded response: the \<^verbatim>\<open>frames\<close> key, a top-level array, a
  single frame object, the first array-valued property.
\<close>

fun first_list_value :: "(string \<times> pyval) list \<Rightarrow> pyval list option" where
  "first_list_value [] = None"
| "first_list_value ((k, PList xs) # kvs) = Some xs"
| "first_list_value ((k, v) # kvs) = first_list_value kvs"

fun join_keys :: "string list \<Rightarrow> string" where
  "join_keys [] = []"
| "join_keys [k] = quoted k"
| "join_keys (k # ks) = quoted k @ '', '' @ join_keys ks"

definition extract_results :: "pyval \<Rightarrow> exn + pyval list" where
  "extract_results json_response =
     (case json_response of
        PDict d \<Rightarrow>
          if dict_has d ''frames'' then
            (case dict_get d ''frames'' PNone of
               PList results \<Rightarrow> Inr results
             | v \<Rightarrow> Inr (if py_truthy v then [v] else []))
          else if dict_has d ''timestamp'' \<or> dict_has d ''description'' then Inr [PDict d]
          else (case first_list_value d of
                  Some results \<Rightarrow> Inr results
                | None \<Rightarrow> Inl (ValueError
                    (''Could not find frames array in response. Keys: ['' @ join_keys (map fst d)
                       @ '']'')))
      | PList results \<Rightarrow> Inr results
      | v \<Rightarrow> Inl (ValueError
          (''Unexpected response format: <class '' @ quoted (py_type_name v) @ ''>'')))"

text \<open>
  The mapping loop \<^verbatim>\<open>for i, frame in enumerate(frames_batch)\<close>. It returns the frames as
  the loop leaves them and the exception that stopped it, if any: \<^verbatim>\<open>result.get\<close> raises
  on an entry that is not an object, and the frames before it are already updated.
\<close>

fun map_results ::
  "pyval list \<Rightarrow> int \<Rightarrow> 'a frame_scheme list \<Rightarrow> 'a frame_scheme list \<times> exn option" where
  "map_results results per_frame_ms [] = ([], None)"
| "map_results [] per_frame_ms (f # fs) =
     (let (fs', ex) = map_results [] per_frame_ms fs in (mark_missing f # fs', ex))"
| "map_results (PDict result # results) per_frame_ms (f # fs) =
     (let (fs', ex) = map_results results per_frame_ms fs
      in (apply_result result per_frame_ms f # fs', ex))"
| "map_results (v # results) per_frame_ms (f # fs) =
     (f # fs, Some (AttributeError
        (quoted (py_type_name v) @ '' object has no attribute '' @ quoted ''get'')))"

definition interpret_batch_response ::
  "env \<Rightarrow> int \<Rightarrow> string option \<Rightarrow> 'a frame_scheme list \<Rightarrow> 'a frame_scheme list" where
  "interpret_batch_response e processing_time content frames_batch =
     (let content_cleaned = (case content of None \<Rightarrow> [] | Some s \<Rightarrow> py_strip s);
          per_frame_ms = processing_time div int (length frames_batch)
      in (case json_loads e content_cleaned of
            Inl msg \<Rightarrow>
              (case content of
                 None \<Rightarrow> map (mark_batch_error
                           (TypeError (quoted ''NoneType'' @ '' object is not subscriptable'')))
                           frames_batch
               | Some s \<Rightarrow> map (mark_parse_error msg per_frame_ms) frames_batch)
          | Inr json_response \<Rightarrow>
              (case extract_results json_response of
                 Inl ex \<Rightarrow> map (mark_batch_error ex) frames_batch
               | Inr results \<Rightarrow>
                   (case map_results results per_frame_ms frames_batch of
                      (analyzed_frames, None) \<Rightarrow> analyzed_frames
                    | (partly, Some ex) \<Rightarrow> map (mark_batch_error ex) partly))))"

text \<open>
  \<^verbatim>\<open>GPTService.analyze_frame_batch\<close>. The argument \<open>calls\<close> is the list of requests sent
  to the model so far; the function returns it extended by the request it sends.
\<close>

definition not_configured :: string where
  "not_configured = ''OpenAI API key not configured''"

definition analyze_frame_batch ::
  "env \<Rightarrow> service \<Rightarrow> caller \<Rightarrow> payload list \<Rightarrow> 'a frame_scheme list
     \<Rightarrow> (exn + 'a frame_scheme list) \<times> payload list" where
  "analyze_frame_batch e svc c calls frames_batch =
     (if \<not> use_custom_gpt svc \<and> get_openai_client e svc c = None
      then (Inl (ValueError not_configured), calls)
      else if frames_batch = [] then (Inr [], calls)
      else
        (case collect_images e frames_batch of
           Inl ex \<Rightarrow> (Inr (map (mark_batch_error ex) frames_batch), calls)
         | Inr image_contents \<Rightarrow>
             if image_contents = [] then (Inr frames_batch, calls)
             else
               (let p = batch_payload e svc c frames_batch image_contents;
                    n = length calls
                in (case call_batch_model e svc c n p of
                      Inl ex \<Rightarrow> (Inr (map (mark_batch_error ex) frames_batch), calls @ [p])
                    | Inr content \<Rightarrow>
                        (Inr (interpret_batch_response e (elapsed_ms e n) content frames_batch),
                         calls @ [p])))))"

section \<open>The batch executor\<close>

definition mark_frame_error :: "exn \<Rightarrow> 'a frame_scheme \<Rightarrow> 'a frame_scheme" where
  "mark_frame_error frame_error f =
     f\<lparr> description := Some (PStr (''Error analyzing frame: '' @ str_exn frame_error)),
        ocr_text := Some PNone,
        meta_tags := Some (PList []),
        processing_time_ms := Some 0,
        error := Some (str_exn frame_error) \<rparr>"

definition mark_task_error :: "string \<Rightarrow> 'a frame_scheme \<Rightarrow> 'a frame_scheme" where
  "mark_task_error error_str f =
     f\<lparr> description := Some (PStr (''Error analyzing batch: '' @ error_str)),
        ocr_text := Some PNone,
        meta_tags := Some (PList []),
        processing_time_ms := Some 0,
        error := Some error_str \<rparr>"

definition mark_gather_error :: "exn \<Rightarrow> 'a frame_scheme \<Rightarrow> 'a frame_scheme" where
  "mark_gather_error batch_result f =
     f\<lparr> description := Some (PStr (''Error: '' @ str_exn batch_result)),
        ocr_text := Some PNone,
        meta_tags := Some (PList []),
        processing_time_ms := Some 0,
        error := Some (str_exn batch_result) \<rparr>"

definition mark_not_configured :: "'a frame_scheme \<Rightarrow> 'a frame_scheme" where
  "mark_not_configured f =
     f\<lparr> description := Some (PStr not_configured),
        ocr_text := Some PNone,
        meta_tags := Some (PList []),
        processing_time_ms := Some 0,
        error := Some not_configured \<rparr>"

text \<open>\<^verbatim>\<open>"error" in frame\<close>: the frame carries the key \<^verbatim>\<open>error\<close>.\<close>

definition has_error :: "'a frame_scheme \<Rightarrow> bool" where
  "has_error f = (error f \<noteq> None)"

text \<open>The test that sends a failed batch to the frame-by-frame fallback.\<close>

definition is_413_error :: "string \<Rightarrow> bool" where
  "is_413_error error_str =
     (py_contains ''413'' error_str \<or> py_contains ''Request Entity Too Large'' error_str
      \<or> py_contains ''payload too large'' (py_lower error_str))"

text \<open>The fallback loop: every frame of the batch as a batch of its own.\<close>

fun individual_fallback ::
  "env \<Rightarrow> service \<Rightarrow> caller \<Rightarrow> payload list \<Rightarrow> 'a frame_scheme list
     \<Rightarrow> 'a frame_scheme list \<times> payload list" where
  "individual_fallback e svc c calls [] = ([], calls)"
| "individual_fallback e svc c calls (f # fs) =
     (case analyze_frame_batch e svc c calls [f] of
        (Inr single_result, calls') \<Rightarrow>
          (let (rest, calls'') = individual_fallback e svc c calls' fs
           in (single_result @ rest, calls''))
      | (Inl frame_error, calls') \<Rightarrow>
          (let (rest, calls'') = individual_fallback e svc c calls' fs
           in (mark_frame_error frame_error f # rest, calls'')))"

text \<open>
  \<^verbatim>\<open>analyze_batch_with_semaphore\<close>, the task of one batch. The result is a sum because
  \<^verbatim>\<open>asyncio.gather(..., return_exceptions=True)\<close> hands an exception of a task on as a
  value.
\<close>

definition analyze_batch_with_semaphore ::
  "env \<Rightarrow> service \<Rightarrow> caller \<Rightarrow> payload list \<Rightarrow> 'a frame_scheme list
     \<Rightarrow> (exn + 'a frame_scheme list) \<times> payload list" where
  "analyze_batch_with_semaphore e svc c calls batch =
     (case analyze_frame_batch e svc c calls batch of
        (Inr result, calls') \<Rightarrow> (Inr result, calls')
      | (Inl ex, calls') \<Rightarrow>
          (let error_str = str_exn ex
           in if is_413_error error_str
              then (let (individual_results, calls'') = individual_fallback e svc c calls' batch
                    in (Inr individual_results, calls''))
              else (Inr (map (mark_task_error error_str) batch), calls')))"

text \<open>
  The tasks of \<^verbatim>\<open>asyncio.gather\<close>. The batches own disjoint frames and the tasks share
  nothing but the transport and the clock, so a run of the tasks is given by the order in
  which they reach the transport: the tasks run one after the other in the order that the
  event loop chooses. \<open>pending\<close> holds the indices of the tasks that have not run,
  \<open>finished\<close> the index and the result of those that have, in the order in which they
  finished. The indices in \<open>pending\<close> are below the number of batches.
\<close>

function run_tasks ::
  "env \<Rightarrow> service \<Rightarrow> caller \<Rightarrow> payload list \<Rightarrow> 'a frame_scheme list list \<Rightarrow> nat list
     \<Rightarrow> (nat \<times> (exn + 'a frame_scheme list)) list
     \<Rightarrow> (nat \<times> (exn + 'a frame_scheme list)) list \<times> payload list" where
  "run_tasks e svc c calls batches pending finished =
     (if pending = [] then (finished, calls)
      else
        (let k = scheduler e pending mod length pending;
             i = pending ! k;
             r = analyze_batch_with_semaphore e svc c calls (batches ! i)
         in run_tasks e svc c (snd r) batches (take k pending @ drop (Suc k) pending)
              (finished @ [(i, fst r)])))"
  by pat_completeness auto
termination
proof (relation "measure (\<lambda>(e, svc, c, calls, batches, pending, finished). length pending)",
    goal_cases)
  case 1
  show ?case by simp
next
  case (2 e svc c calls batches pending k' i r)
  define n where "n = length pending"
  define k where "k = scheduler e pending mod n"
  have "0 < n" using 2 by (simp add: n_def)
  then have "k < n" unfolding k_def by (rule mod_less_divisor)
  then have "min n k + (n - Suc k) < n" by simp
  then show ?case using 2 by (simp add: n_def k_def)
qed

declare run_tasks.simps [simp del]

text \<open>
  \<^verbatim>\<open>asyncio.gather(*tasks, return_exceptions=True)\<close> returns the results in the order of
  the tasks, whatever the order in which they finish.
\<close>

definition gather_batches ::
  "env \<Rightarrow> service \<Rightarrow> caller \<Rightarrow> payload list \<Rightarrow> 'a frame_scheme list list
     \<Rightarrow> (exn + 'a frame_scheme list) list \<times> payload list" where
  "gather_batches e svc c calls batches =
     (let (finished, calls') = run_tasks e svc c calls batches [0..<length batches] []
      in (map snd (sort_key fst finished), calls'))"

text \<open>\<^verbatim>\<open>xs[a:b]\<close> for a start \<open>a \<ge> 0\<close>: a negative stop counts from the end.\<close>

definition py_slice :: "'a list \<Rightarrow> nat \<Rightarrow> int \<Rightarrow> 'a list" where
  "py_slice xs a b =
     (let n = int (length xs);
          stop = (if b < 0 then max 0 (b + n) else min b n)
      in take (nat stop - a) (drop a xs))"

text \<open>The loop that flattens the gathered results.\<close>

fun flatten_results ::
  "'a frame_scheme list \<Rightarrow> int \<Rightarrow> 'a frame_scheme list \<Rightarrow> (exn + 'a frame_scheme list) list
     \<Rightarrow> 'a frame_scheme list" where
  "flatten_results frames batch_size analyzed_frames [] = analyzed_frames"
| "flatten_results frames batch_size analyzed_frames (Inr batch_result # rest) =
     flatten_results frames batch_size (analyzed_frames @ batch_result) rest"
| "flatten_results frames batch_size analyzed_frames (Inl batch_result # rest) =
     flatten_results frames batch_size
       (analyzed_frames @ map (mark_gather_error batch_result)
          (py_slice frames (length analyzed_frames)
             (int (length analyzed_frames) + batch_size)))
       rest"

text \<open>
  \<^verbatim>\<open>analyzed_frames.sort(key=lambda x: x.get("timestamp", 0))\<close>. A list of fewer than two
  frames is returned without a comparison. In a longer list every key is compared with
  another one at least once, and a comparison with \<^verbatim>\<open>None\<close> raises. Numbers are sorted
  in ascending order, frames with equal keys staying in the order they have.
\<close>

definition num_key :: "'a frame_scheme \<Rightarrow> rat" where
  "num_key f = (case ts_key f of TsNum t \<Rightarrow> t | TsNone \<Rightarrow> 0)"

definition sort_by_timestamp :: "env \<Rightarrow> 'a frame_scheme list \<Rightarrow> exn + 'a frame_scheme list" where
  "sort_by_timestamp e analyzed_frames =
     (if length analyzed_frames < 2 then Inr analyzed_frames
      else if TsNone \<in> set (map ts_key analyzed_frames)
      then Inl (TypeError (sort_error e (map ts_key analyzed_frames)))
      else Inr (sort_key num_key analyzed_frames))"

text \<open>
  What a call of \<^verbatim>\<open>batch_analyze_frames\<close> does: it returns a list, raises, or never
  returns (a semaphore of capacity zero is never acquired).
\<close>

datatype 'a outcome = Returns 'a | Raises exn | Hangs

text \<open>The run-time re-check of the settings, which may switch the service to the custom backend.\<close>

definition recheck_custom_gpt :: "env \<Rightarrow> service \<Rightarrow> service" where
  "recheck_custom_gpt e svc =
     (if settings_custom_gpt e \<and> \<not> use_custom_gpt svc
      then svc\<lparr> use_custom_gpt := True \<rparr> else svc)"

definition batch_analyze_frames ::
  "env \<Rightarrow> service \<Rightarrow> caller \<Rightarrow> payload list \<Rightarrow> 'a frame_scheme list \<Rightarrow> int \<Rightarrow> int
     \<Rightarrow> 'a frame_scheme list outcome \<times> service \<times> payload list" where
  "batch_analyze_frames e svc0 c calls frames max_workers batch_size =
     (let svc = recheck_custom_gpt e svc0
      in if \<not> use_custom_gpt svc \<and> get_openai_client e svc c = None
         then (Returns (map mark_not_configured frames), svc, calls)
         else if frames = [] then (Returns [], svc, calls)
         else
           (case plan_batches (use_custom_gpt svc) frames batch_size of
              Inl ex \<Rightarrow> (Raises ex, svc, calls)
            | Inr frame_batches \<Rightarrow>
                if max_workers < 0
                then (Raises (ValueError ''Semaphore initial value must be >= 0''), svc, calls)
                else if max_workers = 0 \<and> frame_batches \<noteq> [] then (Hangs, svc, calls)
                else
                  (let (batch_results, calls') = gather_batches e svc c calls frame_batches
                   in (case sort_by_timestamp e
                              (flatten_results frames batch_size [] batch_results) of
                         Inl ex \<Rightarrow> (Raises ex, svc, calls')
                       | Inr analyzed_frames \<Rightarrow> (Returns analyzed_frames, svc, calls')))))"

text \<open>The default arguments of \<^verbatim>\<open>batch_analyze_frames\<close>.\<close>

definition default_max_workers :: int where
  "default_max_workers = 5"

definition default_batch_size :: int where
  "default_batch_size = 10"


section \<open>Response Interpreter of a single frame\<close>















text \<open>
  The dictionary that \<^verbatim>\<open>analyze_frame\<close> returns. The keys \<^verbatim>\<open>model\<close>, \<^verbatim>\<open>timestamp\<close> and
  \<^verbatim>\<open>frame_number\<close> exist in a success result only, \<^verbatim>\<open>error\<close> in a failure result only;
  \<open>a_gpt_response\<close> says whether the copy under \<^verbatim>\<open>gpt_response\<close> was added.
\<close>

record analysis =
  a_description :: pyval
  a_ocr_text :: pyval
  a_meta_tags :: pyval
  a_processing_time_ms :: int
  a_model :: "string option"
  a_timestamp :: "rat option"
  a_frame_number :: "int option option"
  a_gpt_response :: bool
  a_error :: "string option"






section \<open>A decoder for the examples\<close>

text \<open>
  The general results hold for every \<open>json_loads\<close>. The examples need one: the following
  function reads JSON documents made of objects, arrays, strings (with the one-character
  escapes), integers, decimal fractions and the three literals, as \<^verbatim>\<open>json.loads\<close> does.
  Numbers with an exponent and \<^verbatim>\<open>\u\<close> escapes are rejected here, and the text of the error
  is a fixed one: both are outside the examples.
\<close>

definition json_ws :: "char \<Rightarrow> bool" where
  "json_ws c = (c \<in> set [CHR 0x20, CHR 0x09, CHR 0x0A, CHR 0x0D])"

definition skip_ws :: "string \<Rightarrow> string" where
  "skip_ws s = dropWhile json_ws s"

definition unescape :: "char \<Rightarrow> char option" where
  "unescape c =
     (if c = CHR 0x22 then Some (CHR 0x22)
      else if c = CHR 0x5C then Some (CHR 0x5C)
      else if c = CHR ''/'' then Some (CHR ''/'')
      else if c = CHR ''b'' then Some (CHR 0x08)
      else if c = CHR ''f'' then Some (CHR 0x0C)
      else if c = CHR ''n'' then Some (CHR 0x0A)
      else if c = CHR ''r'' then Some (CHR 0x0D)
      else if c = CHR ''t'' then Some (CHR 0x09)
      else None)"

text \<open>The body of a string, after the opening quote, and the rest after the closing one.\<close>

fun parse_string_body :: "string \<Rightarrow> (string \<times> string) option" where
  "parse_string_body [] = None"
| "parse_string_body [c] = (if c = CHR 0x22 then Some ([], []) else None)"
| "parse_string_body (c # d # cs) =
     (if c = CHR 0x22 then Some ([], d # cs)
      else if c = CHR 0x5C then
        (case unescape d of
           None \<Rightarrow> None
         | Some ch \<Rightarrow> map_option (\<lambda>(s, rest). (ch # s, rest)) (parse_string_body cs))
      else if (of_char c :: nat) < 32 then None
      else map_option (\<lambda>(s, rest). (c # s, rest)) (parse_string_body (d # cs)))"

definition is_digit :: "char \<Rightarrow> bool" where
  "is_digit c = ((48 :: nat) \<le> of_char c \<and> of_char c \<le> (57 :: nat))"

definition digits_value :: "string \<Rightarrow> nat" where
  "digits_value ds = foldl (\<lambda>acc c. 10 * acc + (of_char c - 48)) 0 ds"

text \<open>
  A number: an optional minus, \<^verbatim>\<open>0\<close> or digits that do not start with \<^verbatim>\<open>0\<close>, an optional
  fraction. Digits after a leading \<^verbatim>\<open>0\<close> are left in the rest, where they are an error.
\<close>

definition parse_number :: "string \<Rightarrow> (pyval \<times> string) option" where
  "parse_number s =
     (let neg = prefix ''-'' s;
          body = (if neg then drop 1 s else s);
          int_digits = (if prefix ''0'' body then ''0'' else takeWhile is_digit body);
          after_int = drop (length int_digits) body
      in if int_digits = [] then None
         else if prefix ''e'' after_int \<or> prefix ''E'' after_int then None
         else if prefix ''.'' after_int then
           (let frac_digits = takeWhile is_digit (drop 1 after_int);
                rest = drop (1 + length frac_digits) after_int;
                magnitude = of_nat (digits_value int_digits)
                  + of_nat (digits_value frac_digits) / (10 ^ length frac_digits)
            in if frac_digits = [] \<or> prefix ''e'' rest \<or> prefix ''E'' rest then None
               else Some (PFloat (if neg then - magnitude else magnitude), rest))
         else Some (PInt (if neg then - int (digits_value int_digits)
                          else int (digits_value int_digits)), after_int))"

text \<open>A later member replaces the value of an earlier member of the same name.\<close>

definition dict_of_members :: "(string \<times> pyval) list \<Rightarrow> (string \<times> pyval) list" where
  "dict_of_members kvs = foldl (\<lambda>d (k, v). AList.update k v d) [] kvs"

text \<open>
  Values, the elements of a non-empty array and the members of a non-empty object. The
  first argument bounds the depth of the recursion; the length of the document is enough.
\<close>

fun parse_value :: "nat \<Rightarrow> string \<Rightarrow> (pyval \<times> string) option"
  and parse_elements :: "nat \<Rightarrow> string \<Rightarrow> (pyval list \<times> string) option"
  and parse_members :: "nat \<Rightarrow> string \<Rightarrow> ((string \<times> pyval) list \<times> string) option" where
  "parse_value 0 s = None"
| "parse_value (Suc n) [] = None"
| "parse_value (Suc n) (c # r) =
     (if c = CHR ''{'' then
        (if prefix ''}'' (skip_ws r) then Some (PDict [], drop 1 (skip_ws r))
         else map_option (\<lambda>(kvs, rest). (PDict (dict_of_members kvs), rest))
                (parse_members n (skip_ws r)))
      else if c = CHR ''['' then
        (if prefix '']'' (skip_ws r) then Some (PList [], drop 1 (skip_ws r))
         else map_option (\<lambda>(xs, rest). (PList xs, rest)) (parse_elements n (skip_ws r)))
      else if c = CHR 0x22 then
        map_option (\<lambda>(s, rest). (PStr s, rest)) (parse_string_body r)
      else if prefix ''true'' (c # r) then Some (PBool True, drop 4 (c # r))
      else if prefix ''false'' (c # r) then Some (PBool False, drop 5 (c # r))
      else if prefix ''null'' (c # r) then Some (PNone, drop 4 (c # r))
      else parse_number (c # r))"
| "parse_elements 0 s = None"
| "parse_elements (Suc n) s =
     (case parse_value n s of
        None \<Rightarrow> None
      | Some (v, rest) \<Rightarrow>
          (if prefix '']'' (skip_ws rest) then Some ([v], drop 1 (skip_ws rest))
           else if prefix '','' (skip_ws rest) then
             map_option (\<lambda>(vs, rest'). (v # vs, rest'))
               (parse_elements n (skip_ws (drop 1 (skip_ws rest))))
           else None))"
| "parse_members 0 s = None"
| "parse_members (Suc n) s =
     (if \<not> prefix [CHR 0x22] s then None
      else
        (case parse_string_body (drop 1 s) of
           None \<Rightarrow> None
         | Some (k, rest) \<Rightarrow>
             (if \<not> prefix '':'' (skip_ws rest) then None
              else
                (case parse_value n (skip_ws (drop 1 (skip_ws rest))) of
                   None \<Rightarrow> None
                 | Some (v, rest') \<Rightarrow>
                     (if prefix ''}'' (skip_ws rest') then Some ([(k, v)], drop 1 (skip_ws rest'))
                      else if prefix '','' (skip_ws rest') then
                        map_option (\<lambda>(kvs, rest''). ((k, v) # kvs, rest''))
                          (parse_members n (skip_ws (drop 1 (skip_ws rest'))))
                      else None)))))"

definition decode_error :: string where
  "decode_error = ''Expecting value: line 1 column 1 (char 0)''"

definition json_loads_subset :: "string \<Rightarrow> string + pyval" where
  "json_loads_subset s =
     (case parse_value (length s) (skip_ws s) of
        None \<Rightarrow> Inl decode_error
      | Some (v, rest) \<Rightarrow> if skip_ws rest = [] then Inr v else Inl decode_error)"


section \<open>Concrete services, callers, frames and environments\<close>

text \<open>The three configurations of the service, with the small template.\<close>

definition openai_service :: service where
  "openai_service = \<lparr> use_custom_gpt = False, client = True, prompt_template = demo_template \<rparr>"

definition custom_service :: service where
  "custom_service = \<lparr> use_custom_gpt = True, client = False, prompt_template = demo_template \<rparr>"

definition unconfigured_service :: service where
  "unconfigured_service =
     \<lparr> use_custom_gpt = False, client = False, prompt_template = demo_template \<rparr>"

definition anonymous :: caller where
  "anonymous = \<lparr> user_id = None, db = False \<rparr>"

text \<open>An extracted frame before analysis, with and without the path of its image.\<close>

definition frame_at :: "rat \<Rightarrow> string \<Rightarrow> frame" where
  "frame_at t path =
     \<lparr> image_path = Some path, frame_path = None, timestamp = Some (TsNum t),
       description = None,
       ocr_text = None, meta_tags = None, processing_time_ms = None, gpt_response = None,
       error = None \<rparr>"

definition pathless_frame :: "rat \<Rightarrow> frame" where
  "pathless_frame t =
     \<lparr> image_path = None, frame_path = None, timestamp = Some (TsNum t),
       description = None,
       ocr_text = None, meta_tags = None, processing_time_ms = None, gpt_response = None,
       error = None \<rparr>"

text \<open>
  A standard backend that answers every request with the same text, and a custom
  endpoint that accepts one image per request and rejects more with status 413.
\<close>

definition openai_env :: "string \<Rightarrow> env" where
  "openai_env reply_text =
     \<lparr> settings_custom_gpt = False,
       user_api_key = (\<lambda>uid. False),
       user_rules = (\<lambda>uid. None),
       read_file = (\<lambda>path. Inr ''JPEG''),
       json_loads = json_loads_subset,
       custom_post = (\<lambda>n p. HttpError (Exception ''connection refused'')),
       openai_create = (\<lambda>cl n p. Inr (Some reply_text)),
       elapsed_ms = (\<lambda>n. 900),
       scheduler = (\<lambda>pending. 0),
       sort_error = (\<lambda>keys. []) \<rparr>"

definition one_frame_reply :: string where
  \<open>one_frame_reply = ''{"frames":[{"description":"a menu","meta_tags":["ui","menu","text"]}]}''\<close>

definition strict_endpoint :: "nat \<Rightarrow> payload \<Rightarrow> http_reply" where
  "strict_endpoint n p =
     (if length (pl_images p) > 1 then Http413 else HttpOk (Some one_frame_reply))"

definition custom_env :: env where
  "custom_env =
     \<lparr> settings_custom_gpt = True,
       user_api_key = (\<lambda>uid. False),
       user_rules = (\<lambda>uid. None),
       read_file = (\<lambda>path. Inr ''JPEG''),
       json_loads = json_loads_subset,
       custom_post = strict_endpoint,
       openai_create = (\<lambda>cl n p. Inl (Exception ''connection refused'')),
       elapsed_ms = (\<lambda>n. 900),
       scheduler = (\<lambda>pending. 0),
       sort_error = (\<lambda>keys. []) \<rparr>"

text \<open>An event loop that lets the task submitted last run first.\<close>

definition last_task_first :: "nat list \<Rightarrow> nat" where
  "last_task_first pending = length pending - 1"

text \<open>The model texts of the scenarios.\<close>

definition two_of_three_reply :: string where
  \<open>two_of_three_reply = ''{"frames":[{"description":"a"},{"description":"b"}]}''\<close>









section \<open>Properties of the planning step\<close>

lemma ceil_div_step:
  fixes d s :: nat
  assumes "0 < s" "0 < d"
  shows "(d + s - 1) div s = Suc ((d - s + s - 1) div s)"
proof (cases "d \<le> s")
  case True
  then have "d - s + s - 1 = s - 1" by simp
  moreover have "(s - 1) div s = 0" using assms by simp
  moreover have "(d + s - 1) div s = 1"
    using True assms by (intro div_nat_eqI) auto
  ultimately show ?thesis by simp
next
  case False
  then have "d + s - 1 = (d - s + s - 1) + s" by simp
  then have "(d + s - 1) div s = (d - s + s - 1) div s + 1"
    using assms by (simp only: div_add_self2)
  then show ?thesis by simp
qed

lemma ceiling_nat_div:
  fixes n b :: nat
  assumes "0 < b"
  shows "\<lceil>real n / real b\<rceil> = int ((n + b - 1) div b)"
proof (rule ceiling_unique)
  define q where "q = (n + b - 1) div b"
  have lo: "q * b \<le> n + b - 1" unfolding q_def by simp
  have hi: "n + b - 1 < q * b + b" unfolding q_def using assms
    by (metis add.commute dividend_less_div_times mult.commute)
  from hi assms have "n \<le> q * b" by simp
  then have "real n \<le> real q * real b" by (metis of_nat_le_iff of_nat_mult)
  then show "real n / real b \<le> of_int (int ((n + b - 1) div b))"
    using assms by (simp add: q_def pos_divide_le_eq)
  from lo assms have "n = 0 \<and> q = 0 \<or> q * b < n + b" by auto
  then have "real q * real b < real n + real b"
  proof
    assume "n = 0 \<and> q = 0" then show ?thesis using assms by simp
  next
    assume "q * b < n + b"
    then show ?thesis by (metis of_nat_less_iff of_nat_mult of_nat_add)
  qed
  then have "(real q - 1) * real b < real n" by (simp add: algebra_simps)
  then show "of_int (int ((n + b - 1) div b)) - 1 < real n / real b"
    using assms by (simp add: q_def pos_less_divide_eq)
qed

lemma concat_split_loop:
  "0 < step \<Longrightarrow> concat (split_loop i step frames) = drop i frames"
proof (induction i step frames rule: split_loop.induct)
  case (1 i step frames)
  show ?case
  proof (cases "length frames \<le> i")
    case True
    then show ?thesis by (simp add: split_loop.simps)
  next
    case False
    with 1 have "concat (split_loop (i + step) step frames) = drop (i + step) frames"
      by simp
    moreover have "take step (drop i frames) @ drop (i + step) frames = drop i frames"
      by (metis add.commute append_take_drop_id drop_drop)
    ultimately show ?thesis
      using False 1 by (subst split_loop.simps) simp
  qed
qed

lemma length_split_loop:
  "0 < step \<Longrightarrow>
   length (split_loop i step frames) = (length frames - i + step - 1) div step"
proof (induction i step frames rule: split_loop.induct)
  case (1 i step frames)
  show ?case
  proof (cases "length frames \<le> i")
    case True
    then show ?thesis using 1 by (simp add: split_loop.simps)
  next
    case False
    with 1 have IH: "length (split_loop (i + step) step frames)
        = (length frames - (i + step) + step - 1) div step"
      by simp
    have "length (split_loop i step frames) = Suc (length (split_loop (i + step) step frames))"
      using False 1 by (subst split_loop.simps) simp
    also have "\<dots> = Suc ((length frames - i - step + step - 1) div step)"
      using IH by simp
    also have "\<dots> = (length frames - i + step - 1) div step"
      using ceil_div_step [of step "length frames - i"] False 1 by simp
    finally show ?thesis .
  qed
qed

lemma split_loop_batch_size:
  "0 < step \<Longrightarrow> b \<in> set (split_loop i step frames) \<Longrightarrow> b \<noteq> [] \<and> length b \<le> step"
proof (induction i step frames rule: split_loop.induct)
  case (1 i step frames)
  show ?case
  proof (cases "length frames \<le> i")
    case True
    with 1 show ?thesis by (simp add: split_loop.simps)
  next
    case False
    from 1(3) False 1(2)
    have "b = take step (drop i frames) \<or> b \<in> set (split_loop (i + step) step frames)"
      by (subst (asm) split_loop.simps) simp
    then show ?thesis
    proof
      assume "b = take step (drop i frames)"
      then show ?thesis using False 1(2) by simp
    next
      assume "b \<in> set (split_loop (i + step) step frames)"
      then show ?thesis using 1 False by simp
    qed
  qed
qed

lemma plan_batches_partition:
  assumes "1 \<le> batch_size"
  shows "\<exists>batches. plan_batches use_custom frames batch_size = Inr batches
           \<and> int (length batches)
               = \<lceil>real (length frames) / of_int (effective_batch_size use_custom batch_size)\<rceil>
           \<and> concat batches = frames
           \<and> (\<forall>b \<in> set batches. b \<noteq> []
                 \<and> int (length b) \<le> effective_batch_size use_custom batch_size)"
proof -
  define e where "e = effective_batch_size use_custom batch_size"
  have e_pos: "1 \<le> e" using assms by (simp add: e_def effective_batch_size_def)
  then have step_pos: "0 < nat e" by simp
  have plan: "plan_batches use_custom frames batch_size = Inr (split_loop 0 (nat e) frames)"
    using e_pos by (simp add: plan_batches_def split_batches_def e_def)
  have r: "real (nat e) = real_of_int e" using e_pos by simp
  have c: "\<lceil>real (length frames) / real_of_int e\<rceil>
      = int ((length frames + nat e - 1) div nat e)"
    using ceiling_nat_div [OF step_pos, of "length frames"] unfolding r .
  have "length (split_loop 0 (nat e) frames) = (length frames + nat e - 1) div nat e"
    using length_split_loop [OF step_pos, of 0 frames] by simp
  then have len: "int (length (split_loop 0 (nat e) frames))
      = \<lceil>real (length frames) / of_int e\<rceil>"
    using c by (simp only:)
  have cat: "concat (split_loop 0 (nat e) frames) = frames"
    using concat_split_loop [OF step_pos, of 0 frames] by simp
  have each: "\<forall>b \<in> set (split_loop 0 (nat e) frames). b \<noteq> [] \<and> int (length b) \<le> e"
    using split_loop_batch_size [OF step_pos] e_pos by fastforce
  show ?thesis using plan len cat each unfolding e_def by blast
qed

text \<open>
  Claim C3. For every frame list and every requested batch size of at least 1, the
  planning step yields \<open>\<lceil>N / E\<rceil>\<close> batches, where \<open>E\<close> is the effective batch size
  (after the clamp of the custom backend); the batches are non-empty, hold at most \<open>E\<close>
  frames each, and their concatenation in order is the original frame list.
\<close>

theorem planning_partitions:
  assumes "1 \<le> batch_size"
  shows "\<exists>batches. plan_batches use_custom frames batch_size = Inr batches
           \<and> int (length batches)
               = \<lceil>real (length frames) / of_int (effective_batch_size use_custom batch_size)\<rceil>
           \<and> concat batches = frames
           \<and> (\<forall>b \<in> set batches. b \<noteq> []
                 \<and> int (length b) \<le> effective_batch_size use_custom batch_size)"
  using assms by (rule plan_batches_partition)

theorem planning_partitions_witness:
  "(1::int) \<le> 10 \<and> (\<exists>batches. plan_batches False [0..<25] 10 = Inr batches
      \<and> length batches = 3 \<and> concat batches = [0..<25]
      \<and> (\<forall>b \<in> set batches. b \<noteq> [] \<and> length b \<le> 10))"
  using planning_partitions [of 10 False "[0..<25]"]
  by (simp add: effective_batch_size_def)

section \<open>Properties of the Prompt Resolver\<close>

lemma py_find_bound:
  "py_find sub s = Some i \<Longrightarrow> i + length sub \<le> length s"
proof (induction s arbitrary: i)
  case Nil
  then show ?case by (simp split: if_splits)
next
  case (Cons c cs)
  show ?case
  proof (cases "prefix sub (c # cs)")
    case True
    with Cons.prems have "i = 0" by simp
    then show ?thesis using prefix_length_le [OF True] by simp
  next
    case False
    with Cons.prems obtain j where "py_find sub cs = Some j" "i = Suc j" by auto
    with Cons.IH show ?thesis by simp
  qed
qed











text \<open>An instance without the start marker.\<close>

lemma build_full_prompt_plain_example:
  "py_find start_marker ''Describe the frame.'' = None
   \<and> build_full_prompt ''Describe the frame.'' ''Look for buttons.'' = ''Describe the frame.''"
  by (simp add: build_full_prompt_def start_marker_def)

section \<open>Properties of the batch pipeline\<close>

lemma length_map_results:
  "length (fst (map_results results ms fs)) = length fs"
  by (induction results ms fs rule: map_results.induct) (auto split: prod.splits)

lemma length_interpret_batch_response:
  "length (interpret_batch_response e t content fs) = length fs"
proof -
  have "\<And>results a b. map_results results (t div int (length fs)) fs = (a, b) \<Longrightarrow> length a = length fs"
    using length_map_results by (metis fst_conv)
  then show ?thesis
    by (auto simp: interpret_batch_response_def Let_def
        split: sum.splits option.splits prod.splits)
qed

lemma analyze_frame_batch_length:
  assumes "analyze_frame_batch e svc c calls fb = (Inr rs, calls')"
  shows "length rs = length fb"
  using assms
  by (auto simp: analyze_frame_batch_def Let_def length_interpret_batch_response
      split: if_splits sum.splits)

lemma analyze_frame_batch_raises:
  assumes "analyze_frame_batch e svc c calls fb = (Inl ex, calls')"
  shows "ex = ValueError not_configured \<and> calls' = calls
         \<and> \<not> use_custom_gpt svc \<and> get_openai_client e svc c = None"
  using assms
  by (auto simp: analyze_frame_batch_def Let_def split: if_splits sum.splits)

lemma individual_fallback_length:
  "length (fst (individual_fallback e svc c calls fb)) = length fb"
proof (induction fb arbitrary: calls)
  case Nil
  then show ?case by simp
next
  case (Cons f fs)
  show ?case
  proof (cases "analyze_frame_batch e svc c calls [f]")
    case (Pair r calls')
    show ?thesis
    proof (cases r)
      case (Inl ex)
      then show ?thesis using Pair Cons.IH [of calls']
        by (auto split: prod.splits)
    next
      case (Inr single)
      then have "length single = 1"
        using analyze_frame_batch_length Pair by fastforce
      then show ?thesis using Pair Inr Cons.IH [of calls']
        by (auto split: prod.splits)
    qed
  qed
qed

lemma analyze_batch_with_semaphore_result:
  "\<exists>rs. fst (analyze_batch_with_semaphore e svc c calls batch) = Inr rs
        \<and> length rs = length batch"
proof (cases "analyze_frame_batch e svc c calls batch")
  case (Pair r calls')
  show ?thesis
  proof (cases r)
    case (Inr rs)
    then show ?thesis using Pair analyze_frame_batch_length [of e svc c calls batch rs calls']
      by (simp add: analyze_batch_with_semaphore_def)
  next
    case (Inl ex)
    then show ?thesis using Pair individual_fallback_length [of e svc c calls' batch]
      by (auto simp: analyze_batch_with_semaphore_def Let_def split: prod.splits)
  qed
qed





lemma oversize_rejection_marks_whole_batch:
  assumes "use_custom_gpt svc"
    and "collect_images e batch = Inr image_contents" and "image_contents \<noteq> []"
    and "custom_post e (length calls) (batch_payload e svc c batch image_contents) = Http413"
  shows "analyze_batch_with_semaphore e svc c calls batch
     = (Inr (map (mark_batch_error (Exception payload_too_large)) batch),
        calls @ [batch_payload e svc c batch image_contents])"
proof -
  have "batch \<noteq> []" using assms(2,3) by auto
  then show ?thesis
    using assms
    by (simp add: analyze_batch_with_semaphore_def analyze_frame_batch_def Let_def
        call_batch_model_def call_custom_gpt_def)
qed

lemma fallback_unreachable:
  "analyze_batch_with_semaphore e svc c calls batch
     = (case analyze_frame_batch e svc c calls batch of
          (Inr result, calls') \<Rightarrow> (Inr result, calls')
        | (Inl ex, calls') \<Rightarrow> (Inr (map (mark_task_error not_configured) batch), calls))"
proof (cases "analyze_frame_batch e svc c calls batch")
  case (Pair r calls')
  show ?thesis
  proof (cases r)
    case (Inr rs)
    then show ?thesis using Pair by (simp add: analyze_batch_with_semaphore_def)
  next
    case (Inl ex)
    with Pair analyze_frame_batch_raises [of e svc c calls batch ex calls']
    have ex: "ex = ValueError not_configured" and same: "calls' = calls" by simp_all
    have "\<not> is_413_error not_configured"
      by (simp add: is_413_error_def not_configured_def py_contains_def py_lower_def
          lower_char_def)
    then show ?thesis using Pair Inl ex same
      by (simp add: analyze_batch_with_semaphore_def Let_def)
  qed
qed

lemma analyze_frame_batch_calls:
  assumes "analyze_frame_batch e svc c calls fb = (r, calls')"
  shows "calls' = calls \<or> (\<exists>p. calls' = calls @ [p] \<and> pl_frame_count p = length fb)"
  using assms
  by (auto simp: analyze_frame_batch_def Let_def batch_payload_def
      split: if_splits sum.splits)

lemma analyze_batch_with_semaphore_calls:
  assumes "analyze_batch_with_semaphore e svc c calls batch = (r, calls')"
  shows "\<exists>new. calls' = calls @ new \<and> (\<forall>p \<in> set new. pl_frame_count p = length batch)"
proof (cases "analyze_frame_batch e svc c calls batch")
  case (Pair r0 calls0)
  from analyze_frame_batch_calls [OF Pair]
  have c0: "calls0 = calls \<or> (\<exists>p. calls0 = calls @ [p] \<and> pl_frame_count p = length batch)" .
  show ?thesis
  proof (cases r0)
    case (Inr rs)
    with Pair assms have "calls' = calls0"
      by (simp add: fallback_unreachable)
    with c0 show ?thesis by auto
  next
    case (Inl ex)
    with Pair assms have "calls' = calls"
      by (simp add: fallback_unreachable)
    then show ?thesis by simp
  qed
qed

text \<open>Every result is its input frame with nothing but analysis fields written.\<close>

lemma frame_source_marks [simp]:
  "frame_source (mark_missing f) = frame_source f"
  "frame_source (apply_result r ms f) = frame_source f"
  "frame_source (mark_parse_error msg ms f) = frame_source f"
  "frame_source (mark_batch_error ex f) = frame_source f"
  "frame_source (mark_frame_error ex f) = frame_source f"
  "frame_source (mark_task_error msg f) = frame_source f"
  "frame_source (mark_gather_error ex f) = frame_source f"
  "frame_source (mark_not_configured f) = frame_source f"
  by (simp_all add: frame_source_def mark_missing_def apply_result_def mark_parse_error_def
      mark_batch_error_def mark_frame_error_def mark_task_error_def mark_gather_error_def
      mark_not_configured_def)

lemma frame_source_comp [simp]:
  "frame_source \<circ> mark_missing = frame_source"
  "frame_source \<circ> apply_result r ms = frame_source"
  "frame_source \<circ> mark_parse_error msg ms = frame_source"
  "frame_source \<circ> mark_batch_error ex = frame_source"
  "frame_source \<circ> mark_frame_error ex = frame_source"
  "frame_source \<circ> mark_task_error msg = frame_source"
  "frame_source \<circ> mark_gather_error ex = frame_source"
  "frame_source \<circ> mark_not_configured = frame_source"
  by (rule ext, simp)+

lemma map_results_source:
  "map frame_source (fst (map_results results ms fs)) = map frame_source fs"
  by (induction results ms fs rule: map_results.induct) (auto split: prod.splits)

lemma interpret_batch_response_source:
  "map frame_source (interpret_batch_response e t content fs) = map frame_source fs"
proof -
  have "map frame_source a = map frame_source fs"
    if "map_results results (t div int (length fs)) fs = (a, b)" for results a b
    using map_results_source [of results "t div int (length fs)" fs] that by simp
  then show ?thesis
    by (auto simp: interpret_batch_response_def Let_def
        split: sum.splits option.splits prod.splits)
qed

lemma analyze_frame_batch_source:
  assumes "analyze_frame_batch e svc c calls fb = (Inr rs, calls')"
  shows "map frame_source rs = map frame_source fb"
  using assms
  by (auto simp: analyze_frame_batch_def Let_def interpret_batch_response_source
      split: if_splits sum.splits)

lemma analyze_batch_with_semaphore_source:
  "\<exists>rs. fst (analyze_batch_with_semaphore e svc c calls batch) = Inr rs
        \<and> map frame_source rs = map frame_source batch"
proof (cases "analyze_frame_batch e svc c calls batch")
  case (Pair r calls')
  show ?thesis
  proof (cases r)
    case (Inr rs)
    then show ?thesis using Pair analyze_frame_batch_source [of e svc c calls batch rs calls']
      by (simp add: fallback_unreachable)
  next
    case (Inl ex)
    then show ?thesis using Pair
      by (simp add: fallback_unreachable)
  qed
qed

text \<open>The tasks of the executor, for every order in which the event loop runs them.\<close>

lemma run_tasks_Nil:
  "run_tasks e svc c calls batches [] finished = (finished, calls)"
  by (subst run_tasks.simps) simp

lemma run_tasks_step:
  assumes "pending \<noteq> []"
  shows "run_tasks e svc c calls batches pending finished
     = run_tasks e svc c
         (snd (analyze_batch_with_semaphore e svc c calls
                 (batches ! (pending ! (scheduler e pending mod length pending)))))
         batches
         (take (scheduler e pending mod length pending) pending
            @ drop (Suc (scheduler e pending mod length pending)) pending)
         (finished @ [(pending ! (scheduler e pending mod length pending),
             fst (analyze_batch_with_semaphore e svc c calls
                    (batches ! (pending ! (scheduler e pending mod length pending)))))])"
  using assms by (subst run_tasks.simps) (simp add: Let_def)

lemma run_tasks_invariant:
  assumes step: "\<And>calls0 i fin0. i \<in> set pending0 \<Longrightarrow> I fin0 calls0 \<Longrightarrow>
        I (fin0 @ [(i, fst (analyze_batch_with_semaphore e svc c calls0 (batches ! i)))])
          (snd (analyze_batch_with_semaphore e svc c calls0 (batches ! i)))"
    and "length pending = n" and "set pending \<subseteq> set pending0" and "I finished calls"
  shows "I (fst (run_tasks e svc c calls batches pending finished))
           (snd (run_tasks e svc c calls batches pending finished))"
  using assms(2-)
proof (induction n arbitrary: pending calls finished)
  case 0
  then show ?case by (simp add: run_tasks_Nil)
next
  case (Suc n)
  then have ne: "pending \<noteq> []" by auto
  define k where "k = scheduler e pending mod length pending"
  have k: "k < length pending" using ne by (simp add: k_def)
  define i where "i = pending ! k"
  define r where "r = analyze_batch_with_semaphore e svc c calls (batches ! i)"
  define rest where "rest = take k pending @ drop (Suc k) pending"
  have i_in: "i \<in> set pending0" using k Suc.prems(2) by (auto simp: i_def)
  have len: "length rest = n" using k Suc.prems(1) by (simp add: rest_def min_def)
  have sub: "set rest \<subseteq> set pending0"
    using Suc.prems(2) by (auto simp: rest_def dest: in_set_takeD in_set_dropD)
  have inv: "I (finished @ [(i, fst r)]) (snd r)"
    unfolding r_def using i_in Suc.prems(3) by (rule step)
  have "run_tasks e svc c calls batches pending finished
      = run_tasks e svc c (snd r) batches rest (finished @ [(i, fst r)])"
    unfolding r_def i_def k_def rest_def by (rule run_tasks_step [OF ne])
  then show ?case using Suc.IH [OF len sub inv] by simp
qed

lemma run_tasks_indices:
  "length pending = n \<Longrightarrow>
   mset (map fst (fst (run_tasks e svc c calls batches pending finished)))
     = mset (map fst finished) + mset pending"
proof (induction n arbitrary: pending calls finished)
  case 0
  then show ?case by (simp add: run_tasks_Nil)
next
  case (Suc n)
  then have ne: "pending \<noteq> []" by auto
  define k where "k = scheduler e pending mod length pending"
  have k: "k < length pending" using ne by (simp add: k_def)
  define rest where "rest = take k pending @ drop (Suc k) pending"
  have len: "length rest = n" using k Suc.prems(1) by (simp add: rest_def min_def)
  have "pending = take k pending @ pending ! k # drop (Suc k) pending"
    using k by (rule id_take_nth_drop)
  then have "mset pending = mset (take k pending @ pending ! k # drop (Suc k) pending)"
    by simp
  then have split: "mset pending = add_mset (pending ! k) (mset rest)"
    by (simp add: rest_def)
  show ?case
    unfolding run_tasks_step [OF ne, of e svc c calls batches finished]
    using Suc.IH [OF len [unfolded rest_def k_def]] split
    by (simp add: rest_def k_def)
qed


lemma sort_key_fst_upt:
  assumes "mset (map fst fin) = mset [0..<n]"
  shows "map fst (sort_key fst fin) = [0..<n]"
proof -
  have "sorted (map fst (sort_key fst fin))" by (rule sorted_sort_key)
  moreover have "mset (map fst (sort_key fst fin)) = image_mset fst (mset (sort_key fst fin))"
    by simp
  then have "mset (map fst (sort_key fst fin)) = mset [0..<n]"
    using assms by simp
  ultimately have "sort [0..<n] = map fst (sort_key fst fin)"
    by (rule properties_for_sort [rotated])
  then show ?thesis by (simp add: sort_key_id_if_sorted)
qed

lemma gather_batches_results:
  assumes each: "\<And>calls0 batch. batch \<in> set batches \<Longrightarrow>
      Q batch (fst (analyze_batch_with_semaphore e svc c calls0 batch))"
  shows "list_all2 (\<lambda>r batch. Q batch r) (fst (gather_batches e svc c calls batches)) batches"
proof -
  define n where "n = length batches"
  define run where "run = run_tasks e svc c calls batches [0..<n] []"
  define I :: "(nat \<times> (exn + 'a frame_scheme list)) list \<Rightarrow> payload list \<Rightarrow> bool"
    where "I = (\<lambda>fin calls'. \<forall>(i, r) \<in> set fin. i < n \<and> Q (batches ! i) r)"
  have "I (fst run) (snd run)"
    unfolding run_def
  proof (rule run_tasks_invariant [where ?pending0.0 = "[0..<n]" and n = n])
    fix calls0 i fin0
    assume "i \<in> set [0..<n]" and "I fin0 calls0"
    then show "I (fin0 @ [(i, fst (analyze_batch_with_semaphore e svc c calls0 (batches ! i)))])
          (snd (analyze_batch_with_semaphore e svc c calls0 (batches ! i)))"
      using each [of "batches ! i" calls0] by (auto simp: I_def n_def)
  qed (simp_all add: I_def)
  then have all: "\<forall>(i, r) \<in> set (fst run). i < n \<and> Q (batches ! i) r" by (simp add: I_def)
  have "mset (map fst (fst run)) = mset [0..<n]"
    unfolding run_def using run_tasks_indices [of "[0..<n]" n e svc c calls batches "[]"] by simp
  then have idx: "map fst (sort_key fst (fst run)) = [0..<n]" by (rule sort_key_fst_upt)
  have len: "length (sort_key fst (fst run)) = n"
    using arg_cong [OF idx, of length] by simp
  have g: "fst (gather_batches e svc c calls batches) = map snd (sort_key fst (fst run))"
    by (simp add: gather_batches_def run_def n_def split: prod.splits)
  have "Q (batches ! i) (map snd (sort_key fst (fst run)) ! i)" if "i < n" for i
  proof -
    have "map fst (sort_key fst (fst run)) ! i = [0..<n] ! i" by (simp only: idx)
    then have "fst (sort_key fst (fst run) ! i) = i"
      using that len by simp
    moreover have "i < length (sort_key fst (fst run))" unfolding len by (rule that)
    then have "sort_key fst (fst run) ! i \<in> set (sort_key fst (fst run))" by (rule nth_mem)
    then have "sort_key fst (fst run) ! i \<in> set (fst run)" by simp
    ultimately show ?thesis using all that len by (auto simp: case_prod_beta)
  qed
  then show ?thesis
    unfolding g using len by (simp add: list_all2_conv_all_nth n_def)
qed

lemma gather_batches_requests:
  assumes each: "\<And>calls0 batch. batch \<in> set batches \<Longrightarrow>
      \<exists>p. snd (analyze_batch_with_semaphore e svc c calls0 batch) = calls0 @ [p]
        \<and> pl_frame_count p = length batch"
  shows "\<exists>new. snd (gather_batches e svc c calls batches) = calls @ new
           \<and> mset (map pl_frame_count new) = mset (map length batches)"
proof -
  define n where "n = length batches"
  define run where "run = run_tasks e svc c calls batches [0..<n] []"
  define I :: "(nat \<times> (exn + 'a frame_scheme list)) list \<Rightarrow> payload list \<Rightarrow> bool"
    where "I = (\<lambda>fin calls'. \<exists>new. calls' = calls @ new
        \<and> map pl_frame_count new = map (\<lambda>i. length (batches ! i)) (map fst fin))"
  have "I (fst run) (snd run)"
    unfolding run_def
  proof (rule run_tasks_invariant [where ?pending0.0 = "[0..<n]" and n = n])
    fix calls0 i fin0
    assume i: "i \<in> set [0..<n]" and inv: "I fin0 calls0"
    from inv obtain new where new: "calls0 = calls @ new"
      "map pl_frame_count new = map (\<lambda>i. length (batches ! i)) (map fst fin0)"
      by (auto simp: I_def)
    from i have "batches ! i \<in> set batches" by (simp add: n_def)
    from each [OF this, of calls0] obtain p
      where p: "snd (analyze_batch_with_semaphore e svc c calls0 (batches ! i)) = calls0 @ [p]"
        "pl_frame_count p = length (batches ! i)"
      by blast
    have "snd (analyze_batch_with_semaphore e svc c calls0 (batches ! i)) = calls @ (new @ [p])"
      using p(1) new(1) by simp
    moreover have "map pl_frame_count (new @ [p])
        = map (\<lambda>i. length (batches ! i))
            (map fst (fin0 @ [(i, fst (analyze_batch_with_semaphore e svc c calls0 (batches ! i)))]))"
      using new(2) p(2) by simp
    ultimately show "I (fin0 @ [(i, fst (analyze_batch_with_semaphore e svc c calls0 (batches ! i)))])
          (snd (analyze_batch_with_semaphore e svc c calls0 (batches ! i)))"
      unfolding I_def by blast
  qed (simp_all add: I_def)
  then obtain new where new: "snd run = calls @ new"
    "map pl_frame_count new = map (\<lambda>i. length (batches ! i)) (map fst (fst run))"
    by (auto simp: I_def)
  have "mset (map fst (fst run)) = mset [0..<n]"
    unfolding run_def using run_tasks_indices [of "[0..<n]" n e svc c calls batches "[]"] by simp
  then have "image_mset (\<lambda>i. length (batches ! i)) (mset (map fst (fst run)))
      = image_mset (\<lambda>i. length (batches ! i)) (mset [0..<n])"
    by (simp only:)
  then have "mset (map (\<lambda>i. length (batches ! i)) (map fst (fst run)))
      = mset (map (\<lambda>i. length (batches ! i)) [0..<n])"
    by (simp only: mset_map)
  also have "map (\<lambda>i. length (batches ! i)) [0..<n] = map length batches"
  proof -
    have "map (\<lambda>i. length (batches ! i)) [0..<n] = map length (map ((!) batches) [0..<n])"
      by simp
    then show ?thesis unfolding n_def by (simp only: map_nth)
  qed
  finally have "mset (map pl_frame_count new) = mset (map length batches)"
    using new(2) by simp
  moreover have "snd (gather_batches e svc c calls batches) = snd run"
    by (simp add: gather_batches_def run_def n_def split: prod.splits)
  ultimately show ?thesis using new(1) by auto
qed

text \<open>Flattening and sorting keep the frames and look at nothing but their timestamps.\<close>

lemma flatten_results_source:
  assumes "list_all2 (\<lambda>r batch. \<exists>rs. r = Inr rs \<and> map frame_source rs = map frame_source batch)
             results batches"
  shows "map frame_source (flatten_results frames batch_size acc results)
           = map frame_source acc @ map frame_source (concat batches)"
  using assms
proof (induction results batches arbitrary: acc rule: list_all2_induct)
  case Nil
  then show ?case by simp
next
  case (Cons r rs b bs)
  then obtain x where "r = Inr x" "map frame_source x = map frame_source b" by blast
  then show ?case using Cons.IH [of "acc @ x"] by simp
qed

lemma ts_key_source:
  "frame_source f = frame_source g \<Longrightarrow> ts_key f = ts_key g"
  by (simp add: frame_source_def ts_key_def)

lemma num_key_source:
  "frame_source f = frame_source g \<Longrightarrow> num_key f = num_key g"
  using ts_key_source [of f g] by (simp add: num_key_def)

lemma map_ts_key_source:
  "map frame_source xs = map frame_source ys \<Longrightarrow> map ts_key xs = map ts_key ys"
proof (induction xs arbitrary: ys)
  case Nil
  then show ?case by simp
next
  case (Cons x xs)
  then obtain y ys' where ys: "ys = y # ys'" by (cases ys) auto
  with Cons.prems have xy: "frame_source x = frame_source y"
    and rest: "map frame_source xs = map frame_source ys'" by simp_all
  have "ts_key x = ts_key y" using xy by (rule ts_key_source)
  moreover have "map ts_key xs = map ts_key ys'" using rest by (rule Cons.IH)
  ultimately show ?case unfolding ys by simp
qed


lemma insort_key_sources:
  assumes "frame_source x = frame_source y" and "map frame_source xs = map frame_source ys"
  shows "map frame_source (insort_key num_key x xs) = map frame_source (insort_key num_key y ys)"
  using assms(2)
proof (induction xs arbitrary: ys)
  case Nil
  then show ?case using assms(1) by simp
next
  case (Cons a xs)
  then obtain b ys' where ys: "ys = b # ys'" by (cases ys) auto
  with Cons.prems have ab: "frame_source a = frame_source b"
    and rest: "map frame_source xs = map frame_source ys'" by simp_all
  have keys: "num_key x = num_key y" "num_key a = num_key b"
    using assms(1) ab by (auto intro: num_key_source)
  have ih: "map frame_source (insort_key num_key x xs)
      = map frame_source (insort_key num_key y ys')"
    using rest by (rule Cons.IH)
  show ?case
  proof (cases "num_key y \<le> num_key b")
    case True
    then show ?thesis unfolding ys using keys assms(1) ab rest by simp
  next
    case False
    then show ?thesis unfolding ys using keys ab ih by simp
  qed
qed

lemma sort_key_sources:
  "map frame_source xs = map frame_source ys \<Longrightarrow>
   map frame_source (sort_key num_key xs) = map frame_source (sort_key num_key ys)"
proof (induction xs arbitrary: ys)
  case Nil
  then show ?case by simp
next
  case (Cons x xs)
  then obtain y ys' where ys: "ys = y # ys'" by (cases ys) auto
  with Cons.prems have xy: "frame_source x = frame_source y"
    and rest: "map frame_source xs = map frame_source ys'" by simp_all
  from insort_key_sources [OF xy Cons.IH [OF rest]] show ?case unfolding ys by simp
qed

lemma sort_by_timestamp_numbers:
  assumes "TsNone \<notin> set (map ts_key fs)"
  shows "sort_by_timestamp e fs = Inr (sort_key num_key fs)"
proof (cases fs)
  case Nil
  then show ?thesis by (simp add: sort_by_timestamp_def)
next
  case (Cons f fs')
  show ?thesis
  proof (cases fs')
    case Nil
    with Cons show ?thesis by (simp add: sort_by_timestamp_def)
  next
    case (Cons g gs)
    with \<open>fs = f # fs'\<close> have "\<not> length fs < 2" by simp
    then show ?thesis using assms by (simp add: sort_by_timestamp_def)
  qed
qed

lemma numeric_timestamps:
  "(\<forall>f \<in> set fs. timestamp f \<noteq> Some TsNone) \<longleftrightarrow> TsNone \<notin> set (map ts_key fs)"
proof
  assume numeric: "\<forall>f \<in> set fs. timestamp f \<noteq> Some TsNone"
  show "TsNone \<notin> set (map ts_key fs)"
  proof
    assume "TsNone \<in> set (map ts_key fs)"
    then obtain f where f: "f \<in> set fs" "ts_key f = TsNone" by auto
    then have "timestamp f = Some TsNone" by (simp add: ts_key_def split: option.splits)
    with numeric f(1) show False by blast
  qed
next
  assume absent: "TsNone \<notin> set (map ts_key fs)"
  show "\<forall>f \<in> set fs. timestamp f \<noteq> Some TsNone"
  proof
    fix f
    assume f: "f \<in> set fs"
    show "timestamp f \<noteq> Some TsNone"
    proof
      assume "timestamp f = Some TsNone"
      then have "ts_key f = TsNone" by (simp add: ts_key_def)
      with f have "TsNone \<in> set (map ts_key fs)" by force
      with absent show False by blast
    qed
  qed
qed

text \<open>The whole job: what it returns, and in which order.\<close>

lemma gather_batches_sources:
  "list_all2 (\<lambda>r batch. \<exists>rs. r = Inr rs \<and> map frame_source rs = map frame_source batch)
     (fst (gather_batches e svc c calls batches)) batches"
  by (rule gather_batches_results) (rule analyze_batch_with_semaphore_source)

lemma mark_not_configured_sources:
  "map frame_source (map mark_not_configured frames) = map frame_source frames"
  by simp

lemma batch_analyze_frames_unconfigured:
  assumes "\<not> use_custom_gpt (recheck_custom_gpt e svc)"
    and "get_openai_client e (recheck_custom_gpt e svc) c = None"
  shows "batch_analyze_frames e svc c calls frames max_workers batch_size
     = (Returns (map mark_not_configured frames), recheck_custom_gpt e svc, calls)"
  using assms by (simp add: batch_analyze_frames_def Let_def)

lemma batch_analyze_frames_configured:
  assumes size: "1 \<le> batch_size" and workers: "1 \<le> max_workers"
    and numeric: "\<forall>f \<in> set frames. timestamp f \<noteq> Some TsNone"
    and backend: "use_custom_gpt (recheck_custom_gpt e svc)
                  \<or> get_openai_client e (recheck_custom_gpt e svc) c \<noteq> None"
  shows "\<exists>rs. fst (batch_analyze_frames e svc c calls frames max_workers batch_size) = Returns rs
           \<and> map frame_source rs = map frame_source (sort_key num_key frames)
           \<and> sorted (map num_key rs)"
proof (cases "frames = []")
  case True
  then show ?thesis using backend by (auto simp: batch_analyze_frames_def Let_def)
next
  case False
  define svc' where "svc' = recheck_custom_gpt e svc"
  from plan_batches_partition [OF size, of "use_custom_gpt svc'" frames]
  obtain batches where plan: "plan_batches (use_custom_gpt svc') frames batch_size = Inr batches"
    and cat: "concat batches = frames"
    by blast
  obtain results calls' where g: "gather_batches e svc' c calls batches = (results, calls')"
    by (cases "gather_batches e svc' c calls batches")
  define flat where "flat = flatten_results frames batch_size [] results"
  have src: "map frame_source flat = map frame_source frames"
    unfolding flat_def
    using flatten_results_source [OF gather_batches_sources [of e svc' c calls batches],
        of frames batch_size "[]"] g cat
    by simp
  then have keys: "map ts_key flat = map ts_key frames" by (rule map_ts_key_source)
  have "TsNone \<notin> set (map ts_key frames)"
    using numeric numeric_timestamps [of frames] by blast
  then have "TsNone \<notin> set (map ts_key flat)" unfolding keys .
  then have sorted_run: "sort_by_timestamp e flat = Inr (sort_key num_key flat)"
    by (rule sort_by_timestamp_numbers)
  have run: "fst (batch_analyze_frames e svc c calls frames max_workers batch_size)
      = Returns (sort_key num_key flat)"
    using False backend workers plan g sorted_run
    by (auto simp: batch_analyze_frames_def Let_def svc'_def [symmetric] flat_def [symmetric])
  have "map frame_source (sort_key num_key flat) = map frame_source (sort_key num_key frames)"
    using src by (rule sort_key_sources)
  moreover have "sorted (map num_key (sort_key num_key flat))" by (rule sorted_sort_key)
  ultimately show ?thesis using run by blast
qed

lemma batch_analyze_frames_order:
  assumes size: "1 \<le> batch_size" and workers: "1 \<le> max_workers"
    and numeric: "\<forall>f \<in> set frames. timestamp f \<noteq> Some TsNone"
    and scope: "use_custom_gpt (recheck_custom_gpt e svc)
                  \<or> get_openai_client e (recheck_custom_gpt e svc) c \<noteq> None
                  \<or> sorted (map num_key frames)"
  shows "\<exists>rs. fst (batch_analyze_frames e svc c calls frames max_workers batch_size) = Returns rs
           \<and> map frame_source rs = map frame_source (sort_key num_key frames)
           \<and> sorted (map num_key rs)"
proof (cases "use_custom_gpt (recheck_custom_gpt e svc)
              \<or> get_openai_client e (recheck_custom_gpt e svc) c \<noteq> None")
  case True
  with size workers numeric show ?thesis by (rule batch_analyze_frames_configured)
next
  case False
  with scope have ordered: "sorted (map num_key frames)" by blast
  then have same: "sort_key num_key frames = frames" by (rule sort_key_id_if_sorted)
  have keys: "map num_key (map mark_not_configured frames) = map num_key frames"
    by (simp add: num_key_def ts_key_def mark_not_configured_def)
  from False have "fst (batch_analyze_frames e svc c calls frames max_workers batch_size)
      = Returns (map mark_not_configured frames)"
    by (simp add: batch_analyze_frames_unconfigured)
  moreover have "map frame_source (map mark_not_configured frames)
      = map frame_source (sort_key num_key frames)"
    unfolding same by (rule mark_not_configured_sources)
  moreover have "sorted (map num_key (map mark_not_configured frames))"
    unfolding keys by (rule ordered)
  ultimately show ?thesis by blast
qed

lemma batch_analyze_frames_returns:
  assumes size: "1 \<le> batch_size" and workers: "1 \<le> max_workers"
    and numeric: "\<forall>f \<in> set frames. timestamp f \<noteq> Some TsNone"
  shows "\<exists>rs. fst (batch_analyze_frames e svc c calls frames max_workers batch_size) = Returns rs
           \<and> length rs = length frames
           \<and> mset (map frame_source rs) = mset (map frame_source frames)"
proof (cases "use_custom_gpt (recheck_custom_gpt e svc)
              \<or> get_openai_client e (recheck_custom_gpt e svc) c \<noteq> None")
  case True
  from batch_analyze_frames_configured [OF size workers numeric True, of calls]
  obtain rs where rs: "fst (batch_analyze_frames e svc c calls frames max_workers batch_size)
      = Returns rs"
    and src: "map frame_source rs = map frame_source (sort_key num_key frames)"
    by blast
  from src have "length (map frame_source rs) = length (map frame_source (sort_key num_key frames))"
    by (simp only:)
  then have "length rs = length frames" by simp
  moreover from src have "mset (map frame_source rs)
      = mset (map frame_source (sort_key num_key frames))"
    by (simp only:)
  then have "mset (map frame_source rs) = mset (map frame_source frames)" by simp
  ultimately show ?thesis using rs by blast
next
  case False
  then have "fst (batch_analyze_frames e svc c calls frames max_workers batch_size)
      = Returns (map mark_not_configured frames)"
    by (simp add: batch_analyze_frames_unconfigured)
  moreover have "length (map mark_not_configured frames) = length frames" by simp
  moreover have "mset (map frame_source (map mark_not_configured frames))
      = mset (map frame_source frames)"
    by (simp only: mark_not_configured_sources)
  ultimately show ?thesis by blast
qed

text \<open>
  Without the guard on the timestamps the job can raise after all batches are done: two
  frames, one of them with \<^verbatim>\<open>None\<close> under the key \<^verbatim>\<open>timestamp\<close>.
\<close>

lemma none_timestamp_raises:
  "fst (batch_analyze_frames (openai_env two_of_three_reply) openai_service anonymous []
          [frame_at 0 ''f0.jpg'', (frame_at 1 ''f1.jpg'')\<lparr> timestamp := Some TsNone \<rparr>] 5 10)
     = Raises (TypeError [])"
  by (simp add: openai_service_def anonymous_def recheck_custom_gpt_def get_openai_client_def
      user_and_db_def frame_at_def ts_key_def frame_image_def apply_result_def openai_env_def
      analyze_frame_batch_def batch_payload_def call_batch_model_def get_prompt_template_def
      interpret_batch_response_def extract_results_def dict_get_def dict_has_def
      batch_analyze_frames_def analyze_batch_with_semaphore_def gather_batches_def
      run_tasks.simps sort_by_timestamp_def plan_batches_def split_batches_def
      effective_batch_size_def split_loop.simps Let_def json_loads_subset_def skip_ws_def
      json_ws_def dict_of_members_def unescape_def py_strip_def py_lstrip_def py_rstrip_def
      isspace_def two_of_three_reply_def)

lemma empty_frames:
  "batch_analyze_frames e svc c calls [] max_workers batch_size
     = (Returns [], recheck_custom_gpt e svc, calls)
   \<and> analyze_frame_batch e svc c calls []
     = (if use_custom_gpt svc \<or> get_openai_client e svc c \<noteq> None then (Inr [], calls)
        else (Inl (ValueError not_configured), calls))"
  by (simp add: batch_analyze_frames_def analyze_frame_batch_def Let_def)

text \<open>The requests of a job whose frames all have a readable image.\<close>

lemma split_loop_lengths:
  "0 < step \<Longrightarrow>
   map length (split_loop i step frames)
     = replicate ((length frames - i) div step) step
       @ (if (length frames - i) mod step = 0 then [] else [(length frames - i) mod step])"
proof (induction i step frames rule: split_loop.induct)
  case (1 i step frames)
  define d where "d = length frames - i"
  show ?case
  proof (cases "length frames \<le> i")
    case True
    then show ?thesis by (simp add: split_loop.simps)
  next
    case False
    with 1 have IH: "map length (split_loop (i + step) step frames)
        = replicate ((length frames - (i + step)) div step) step
          @ (if (length frames - (i + step)) mod step = 0 then []
             else [(length frames - (i + step)) mod step])"
      by simp
    have unfold: "map length (split_loop i step frames)
        = min (length frames - i) step # map length (split_loop (i + step) step frames)"
      using False 1 by (subst split_loop.simps) simp
    have rest: "length frames - (i + step) = d - step" by (simp add: d_def)
    show ?thesis
    proof (cases "step \<le> d")
      case True
      then have "d div step = Suc ((d - step) div step)" "d mod step = (d - step) mod step"
        using 1(2) by (simp_all add: le_div_geq le_mod_geq)
      then show ?thesis
        unfolding unfold IH rest using True by (simp add: d_def [symmetric] min_def)
    next
      case False
      then have small: "d div step = 0" "d mod step = d" "d - step = 0" by simp_all
      have "0 < d" using \<open>\<not> length frames \<le> i\<close> by (simp add: d_def)
      then show ?thesis
        unfolding unfold IH rest using False small by (simp add: d_def [symmetric] min_def)
    qed
  qed
qed

lemma collect_images_readable:
  assumes "\<forall>f \<in> set fb. \<exists>p data. frame_image f = Some p \<and> read_file e p = Inr data"
  shows "\<exists>imgs. collect_images e fb = Inr imgs \<and> length imgs = length fb"
  using assms
proof (induction fb)
  case Nil
  then show ?case by simp
next
  case (Cons f fs)
  then obtain p data where f: "frame_image f = Some p" "read_file e p = Inr data" by auto
  from Cons obtain imgs where "collect_images e fs = Inr imgs" "length imgs = length fs"
    by auto
  with f show ?case by simp
qed

lemma analyze_batch_with_semaphore_sends:
  assumes backend: "use_custom_gpt svc \<or> get_openai_client e svc c \<noteq> None"
    and readable: "\<forall>f \<in> set batch. \<exists>p data. frame_image f = Some p \<and> read_file e p = Inr data"
    and filled: "batch \<noteq> []"
  shows "\<exists>p. snd (analyze_batch_with_semaphore e svc c calls0 batch) = calls0 @ [p]
           \<and> pl_frame_count p = length batch"
proof -
  from collect_images_readable [OF readable]
  obtain imgs where imgs: "collect_images e batch = Inr imgs" "length imgs = length batch"
    by blast
  with filled have "imgs \<noteq> []" by auto
  with backend imgs(1) filled show ?thesis
    by (auto simp: fallback_unreachable analyze_frame_batch_def Let_def batch_payload_def
        split: sum.splits)
qed

lemma batch_analyze_frames_requests:
  assumes size: "1 \<le> batch_size" and workers: "1 \<le> max_workers"
    and backend: "use_custom_gpt svc \<or> settings_custom_gpt e
                  \<or> get_openai_client e svc c \<noteq> None"
    and readable: "\<forall>f \<in> set frames. \<exists>p data. frame_image f = Some p \<and> read_file e p = Inr data"
    and E: "E = nat (if use_custom_gpt svc \<or> settings_custom_gpt e
                     then min batch_size 2 else batch_size)"
  shows "\<exists>new. snd (snd (batch_analyze_frames e svc c calls frames max_workers batch_size))
             = calls @ new
           \<and> mset (map pl_frame_count new)
               = mset (replicate (length frames div E) E
                       @ (if length frames mod E = 0 then [] else [length frames mod E]))"
proof (cases "frames = []")
  case True
  then show ?thesis using backend
    by (auto simp: batch_analyze_frames_def Let_def recheck_custom_gpt_def)
next
  case False
  define svc' where "svc' = recheck_custom_gpt e svc"
  have custom: "use_custom_gpt svc' = (use_custom_gpt svc \<or> settings_custom_gpt e)"
    by (auto simp: svc'_def recheck_custom_gpt_def)
  have backend': "use_custom_gpt svc' \<or> get_openai_client e svc' c \<noteq> None"
    using backend by (auto simp: svc'_def recheck_custom_gpt_def)
  have E_pos: "0 < E" using size by (simp add: E)
  define batches where "batches = split_loop 0 E frames"
  define step where "step = effective_batch_size (use_custom_gpt svc') batch_size"
  have step: "1 \<le> step" "E = nat step"
    using size by (auto simp: step_def effective_batch_size_def custom E)
  have plan: "plan_batches (use_custom_gpt svc') frames batch_size = Inr batches"
    using step
    by (simp add: plan_batches_def split_batches_def step_def [symmetric] batches_def)
  have parts: "concat batches = frames"
    unfolding batches_def using concat_split_loop [OF E_pos, of 0 frames] by simp
  have each: "\<exists>p. snd (analyze_batch_with_semaphore e svc' c calls0 batch) = calls0 @ [p]
           \<and> pl_frame_count p = length batch"
    if "batch \<in> set batches" for calls0 batch
  proof (rule analyze_batch_with_semaphore_sends [OF backend'])
    show "\<forall>f \<in> set batch. \<exists>p data. frame_image f = Some p \<and> read_file e p = Inr data"
      using readable that parts by auto
    show "batch \<noteq> []"
      using split_loop_batch_size [OF E_pos, of batch 0 frames] that by (simp add: batches_def)
  qed
  from gather_batches_requests [of batches e svc' c calls, OF each]
  obtain new where new: "snd (gather_batches e svc' c calls batches) = calls @ new"
    "mset (map pl_frame_count new) = mset (map length batches)"
    by blast
  have lengths: "map length batches
      = replicate (length frames div E) E
        @ (if length frames mod E = 0 then [] else [length frames mod E])"
    unfolding batches_def using split_loop_lengths [OF E_pos, of 0 frames] by simp
  have "snd (snd (batch_analyze_frames e svc c calls frames max_workers batch_size))
      = snd (gather_batches e svc' c calls batches)"
    using False backend' workers plan
    by (auto simp: batch_analyze_frames_def Let_def svc'_def [symmetric]
        split: prod.splits sum.splits)
  with new lengths show ?thesis by (simp only:) blast
qed

text \<open>The event loop has no part in the choice of the backend.\<close>

lemma scheduler_irrelevant:
  "recheck_custom_gpt (e\<lparr> scheduler := order \<rparr>) svc = recheck_custom_gpt e svc"
  "get_openai_client (e\<lparr> scheduler := order \<rparr>) svc c = get_openai_client e svc c"
  by (simp_all add: recheck_custom_gpt_def get_openai_client_def split: option.splits)

text \<open>
  How a job reports failures. Every path that gives up on a batch writes the key
  \<^verbatim>\<open>error\<close> into its frames, except the return for a batch without any image path. So
  when every frame has an image path, each returned frame carries the key \<^verbatim>\<open>error\<close>
  or is an input frame with an entry of the response written into it.
\<close>

lemma marked_error:
  "has_error (mark_missing f)"
  "has_error (mark_parse_error msg ms f)"
  "has_error (mark_batch_error ex f)"
  "has_error (mark_frame_error ex f)"
  "has_error (mark_task_error msg f)"
  "has_error (mark_gather_error ex f)"
  "has_error (mark_not_configured f)"
  by (simp_all add: has_error_def mark_missing_def mark_parse_error_def mark_batch_error_def
      mark_frame_error_def mark_task_error_def mark_gather_error_def mark_not_configured_def)

lemma map_results_marks:
  "map_results results ms fs = (analyzed, None) \<Longrightarrow>
   \<forall>r \<in> set analyzed. has_error r \<or> (\<exists>f \<in> set fs. \<exists>res. r = apply_result res ms f)"
proof (induction results ms fs arbitrary: analyzed rule: map_results.induct)
  case (1 results ms)
  then show ?case by simp
next
  case (2 ms f fs)
  obtain rest ex where rest: "map_results [] ms fs = (rest, ex)"
    by (cases "map_results [] ms fs")
  with 2 have a: "analyzed = mark_missing f # rest" and "ex = None" by simp_all
  with 2 rest have "\<forall>r \<in> set rest. has_error r
      \<or> (\<exists>f \<in> set fs. \<exists>res. r = apply_result res ms f)"
    by simp
  then show ?case unfolding a using marked_error(1) [of f] by auto
next
  case (3 result results ms f fs)
  obtain rest ex where rest: "map_results results ms fs = (rest, ex)"
    by (cases "map_results results ms fs")
  with 3 have a: "analyzed = apply_result result ms f # rest" and "ex = None" by simp_all
  with 3 rest have "\<forall>r \<in> set rest. has_error r
      \<or> (\<exists>f \<in> set fs. \<exists>res. r = apply_result res ms f)"
    by simp
  then show ?case unfolding a by auto
qed simp_all

lemma interpret_batch_response_marks:
  "\<forall>r \<in> set (interpret_batch_response e t content fs).
     has_error r \<or> (\<exists>f \<in> set fs. \<exists>res ms. r = apply_result res ms f)"
proof -
  define ms where "ms = t div int (length fs)"
  define P where "P = (\<lambda>r :: 'a frame_scheme. has_error r
      \<or> (\<exists>f \<in> set fs. \<exists>res ms. r = apply_result res ms f))"
  have marked: "\<forall>r \<in> set (map (mark_batch_error ex) xs). P r"
    "\<forall>r \<in> set (map (mark_parse_error msg ms') xs). P r"
    for ex msg ms' and xs :: "'a frame_scheme list"
    by (simp_all add: P_def marked_error)
  have mapped: "\<forall>r \<in> set (case map_results results ms fs of
        (analyzed_frames, None) \<Rightarrow> analyzed_frames
      | (partly, Some ex) \<Rightarrow> map (mark_batch_error ex) partly). P r" for results
  proof (cases "map_results results ms fs")
    case (Pair a opt)
    show ?thesis
    proof (cases opt)
      case None
      with Pair have "\<forall>r \<in> set a. has_error r
          \<or> (\<exists>f \<in> set fs. \<exists>res. r = apply_result res ms f)"
        by (simp add: map_results_marks)
      then have "\<forall>r \<in> set a. P r" unfolding P_def by blast
      with Pair None show ?thesis by simp
    next
      case (Some ex)
      with Pair marked(1) [of ex a] show ?thesis by simp
    qed
  qed
  have extracted: "\<forall>r \<in> set (case ext of
        Inl ex \<Rightarrow> map (mark_batch_error ex) fs
      | Inr results \<Rightarrow>
          (case map_results results ms fs of
             (analyzed_frames, None) \<Rightarrow> analyzed_frames
           | (partly, Some ex) \<Rightarrow> map (mark_batch_error ex) partly)). P r"
    for ext :: "exn + pyval list"
    using marked(1) mapped by (cases ext) simp_all
  have failed: "\<forall>r \<in> set (case content of
        None \<Rightarrow> map (mark_batch_error ex) fs
      | Some s \<Rightarrow> map (mark_parse_error msg ms) fs). P r" for ex msg
    using marked by (cases content) simp_all
  have "\<forall>r \<in> set (interpret_batch_response e t content fs). P r"
    unfolding interpret_batch_response_def Let_def ms_def [symmetric]
    using failed extracted
    by (cases "json_loads e (case content of None \<Rightarrow> [] | Some s \<Rightarrow> py_strip s)") simp_all
  then show ?thesis unfolding P_def .
qed

lemma collect_images_none:
  "collect_images e fb = Inr [] \<Longrightarrow> \<forall>f \<in> set fb. frame_image f = None"
  by (induction fb) (auto split: option.splits sum.splits)

lemma analyze_frame_batch_marks:
  assumes run: "analyze_frame_batch e svc c calls fb = (Inr rs, calls')"
    and path: "\<exists>f \<in> set fb. frame_image f \<noteq> None"
  shows "\<forall>r \<in> set rs. has_error r \<or> (\<exists>f \<in> set fb. \<exists>res ms. r = apply_result res ms f)"
proof -
  define P where "P = (\<lambda>r :: 'a frame_scheme. has_error r
      \<or> (\<exists>f \<in> set fb. \<exists>res ms. r = apply_result res ms f))"
  have images: "collect_images e fb \<noteq> Inr []"
  proof
    assume "collect_images e fb = Inr []"
    then have "\<forall>f \<in> set fb. frame_image f = None" by (rule collect_images_none)
    with path show False by auto
  qed
  have marked: "\<forall>r \<in> set (map (mark_batch_error ex) fb). P r" for ex
    by (simp add: P_def marked_error)
  have interpreted: "\<forall>r \<in> set (interpret_batch_response e t content fb). P r" for t content
    unfolding P_def by (rule interpret_batch_response_marks)
  have "\<forall>r \<in> set rs. P r"
  proof (cases "collect_images e fb")
    case (Inl ex)
    with run marked [of ex] show ?thesis
      by (auto simp: analyze_frame_batch_def split: if_splits)
  next
    case (Inr image_contents)
    with images have filled: "image_contents \<noteq> []" by simp
    show ?thesis
    proof (cases "call_batch_model e svc c (length calls)
        (batch_payload e svc c fb image_contents)")
      case (Inl ex)
      with run Inr filled marked [of ex] show ?thesis
        by (auto simp: analyze_frame_batch_def Let_def split: if_splits)
    next
      case reply: (Inr content)
      with run Inr filled interpreted [of "elapsed_ms e (length calls)" content] show ?thesis
        by (auto simp: analyze_frame_batch_def Let_def split: if_splits)
    qed
  qed
  then show ?thesis unfolding P_def .
qed

lemma analyze_batch_with_semaphore_marks:
  assumes "\<exists>f \<in> set batch. frame_image f \<noteq> None"
  shows "\<exists>rs. fst (analyze_batch_with_semaphore e svc c calls batch) = Inr rs
     \<and> (\<forall>r \<in> set rs. has_error r
           \<or> (\<exists>f \<in> set batch. \<exists>res ms. r = apply_result res ms f))"
proof (cases "analyze_frame_batch e svc c calls batch")
  case (Pair r calls')
  show ?thesis
  proof (cases r)
    case (Inr rs)
    with Pair analyze_frame_batch_marks [OF _ assms, of e svc c calls rs calls']
    show ?thesis by (simp add: fallback_unreachable)
  next
    case (Inl ex)
    have "\<forall>r \<in> set (map (mark_task_error not_configured) batch). has_error r"
      by (simp add: marked_error)
    with Pair Inl show ?thesis by (simp add: fallback_unreachable)
  qed
qed

lemma flatten_results_set:
  assumes "list_all2 (\<lambda>r batch. \<exists>rs. r = Inr rs \<and> (\<forall>x \<in> set rs. P x)) results batches"
    and "\<forall>x \<in> set acc. P x"
  shows "\<forall>x \<in> set (flatten_results frames batch_size acc results). P x"
  using assms
proof (induction results batches arbitrary: acc rule: list_all2_induct)
  case Nil
  then show ?case by simp
next
  case (Cons r rs b bs)
  then obtain x where x: "r = Inr x" "\<forall>y \<in> set x. P y" by blast
  with Cons.prems have "\<forall>y \<in> set (acc @ x). P y" by auto
  from Cons.IH [OF this] x(1) show ?case by simp
qed

lemma batch_analyze_frames_marks:
  assumes size: "1 \<le> batch_size" and workers: "1 \<le> max_workers"
    and numeric: "\<forall>f \<in> set frames. timestamp f \<noteq> Some TsNone"
    and paths: "\<forall>f \<in> set frames. frame_image f \<noteq> None"
  shows "\<exists>rs. fst (batch_analyze_frames e svc c calls frames max_workers batch_size) = Returns rs
           \<and> length rs = length frames
           \<and> (\<forall>r \<in> set rs. has_error r
                 \<or> (\<exists>f \<in> set frames. \<exists>res ms. r = apply_result res ms f))"
proof (cases "use_custom_gpt (recheck_custom_gpt e svc)
              \<or> get_openai_client e (recheck_custom_gpt e svc) c \<noteq> None")
  case False
  then have "fst (batch_analyze_frames e svc c calls frames max_workers batch_size)
      = Returns (map mark_not_configured frames)"
    by (simp add: batch_analyze_frames_unconfigured)
  moreover have "length (map mark_not_configured frames) = length frames" by simp
  moreover have "\<forall>r \<in> set (map mark_not_configured frames). has_error r"
    by (simp add: marked_error)
  ultimately show ?thesis by blast
next
  case True
  show ?thesis
  proof (cases "frames = []")
    case True
    then show ?thesis by (simp add: empty_frames)
  next
    case False
    define svc' where "svc' = recheck_custom_gpt e svc"
    define P where "P = (\<lambda>r :: 'a frame_scheme. has_error r
        \<or> (\<exists>f \<in> set frames. \<exists>res ms. r = apply_result res ms f))"
    from plan_batches_partition [OF size, of "use_custom_gpt svc'" frames]
    obtain batches where plan: "plan_batches (use_custom_gpt svc') frames batch_size = Inr batches"
      and cat: "concat batches = frames"
      and filled: "\<forall>b \<in> set batches. b \<noteq> []"
      by blast
    obtain results calls' where g: "gather_batches e svc' c calls batches = (results, calls')"
      by (cases "gather_batches e svc' c calls batches")
    have each: "\<exists>rs. fst (analyze_batch_with_semaphore e svc' c calls0 batch) = Inr rs
        \<and> (\<forall>x \<in> set rs. P x)"
      if "batch \<in> set batches" for calls0 batch
    proof -
      from that cat have sub: "set batch \<subseteq> set frames" by auto
      from that filled have "batch \<noteq> []" by blast
      then obtain f where "f \<in> set batch" by (cases batch) auto
      with sub paths have "\<exists>f \<in> set batch. frame_image f \<noteq> None" by blast
      from analyze_batch_with_semaphore_marks [OF this, of e svc' c calls0] sub
      show ?thesis unfolding P_def by blast
    qed
    have "list_all2 (\<lambda>r batch. \<exists>rs. r = Inr rs \<and> (\<forall>x \<in> set rs. P x))
        (fst (gather_batches e svc' c calls batches)) batches"
      by (rule gather_batches_results) (rule each)
    then have all: "list_all2 (\<lambda>r batch. \<exists>rs. r = Inr rs \<and> (\<forall>x \<in> set rs. P x)) results batches"
      using g by simp
    define flat where "flat = flatten_results frames batch_size [] results"
    have marked: "\<forall>x \<in> set flat. P x"
      unfolding flat_def by (rule flatten_results_set [OF all]) simp
    have src: "map frame_source flat = map frame_source frames"
      unfolding flat_def
      using flatten_results_source [OF gather_batches_sources [of e svc' c calls batches],
          of frames batch_size "[]"] g cat
      by simp
    then have keys: "map ts_key flat = map ts_key frames" by (rule map_ts_key_source)
    have "TsNone \<notin> set (map ts_key frames)"
      using numeric numeric_timestamps [of frames] by blast
    then have "TsNone \<notin> set (map ts_key flat)" unfolding keys .
    then have sorted_run: "sort_by_timestamp e flat = Inr (sort_key num_key flat)"
      by (rule sort_by_timestamp_numbers)
    have run: "fst (batch_analyze_frames e svc c calls frames max_workers batch_size)
        = Returns (sort_key num_key flat)"
      using False True workers plan g sorted_run
      by (auto simp: batch_analyze_frames_def Let_def svc'_def [symmetric] flat_def [symmetric])
    from src have "length (map frame_source flat) = length (map frame_source frames)"
      by (simp only:)
    then have "length (sort_key num_key flat) = length frames" by simp
    moreover have "\<forall>x \<in> set (sort_key num_key flat). P x" using marked by simp
    ultimately show ?thesis using run unfolding P_def by blast
  qed
qed

section \<open>The claims about the batch pipeline\<close>

text \<open>The definitions that the concrete runs below unfold.\<close>

lemmas service_defs = openai_service_def custom_service_def unconfigured_service_def
  anonymous_def recheck_custom_gpt_def get_openai_client_def user_and_db_def
lemmas frame_defs = frame_at_def pathless_frame_def ts_key_def num_key_def frame_image_def
  mark_not_configured_def mark_batch_error_def mark_missing_def apply_result_def
  mark_parse_error_def
lemmas env_defs = openai_env_def custom_env_def strict_endpoint_def last_task_first_def
lemmas batch_defs = analyze_frame_batch_def batch_payload_def call_batch_model_def
  call_custom_gpt_def get_prompt_template_def interpret_batch_response_def
  extract_results_def dict_get_def dict_has_def
lemmas executor_defs = batch_analyze_frames_def analyze_batch_with_semaphore_def
  gather_batches_def run_tasks.simps sort_by_timestamp_def
  plan_batches_def split_batches_def effective_batch_size_def split_loop.simps Let_def
lemmas json_defs = json_loads_subset_def skip_ws_def json_ws_def dict_of_members_def
  unescape_def parse_number_def is_digit_def digits_value_def py_strip_def py_lstrip_def
  py_rstrip_def isspace_def

text \<open>
  Claim C2 on the code. A job of two frames with a batch size of 1: the first frame has an
  image and is analysed, the second has no image path. The job returns two frames and
  does not raise, but the batch of the second frame is handed back as it came: one
  request was sent, for the first frame, and the frame that was never analysed has no
  error, like the one that was.
\<close>

theorem unanalysed_frame_without_error:
  "batch_analyze_frames (openai_env one_frame_reply) openai_service anonymous []
     [frame_at 0 ''f0.jpg'', pathless_frame 1] 5 1
   = (Returns [apply_result [(''description'', PStr ''a menu''),
                             (''meta_tags'', PList [PStr ''ui'', PStr ''menu'', PStr ''text''])]
                 900 (frame_at 0 ''f0.jpg''),
               pathless_frame 1],
      openai_service,
      [\<lparr> pl_instructions = None, pl_frame_count = 1, pl_timestamps = [TsNum 0],
         pl_images = [''JPEG''], pl_max_tokens = 4000 \<rparr>])
   \<and> error (apply_result [(''description'', PStr ''a menu''),
                          (''meta_tags'', PList [PStr ''ui'', PStr ''menu'', PStr ''text''])]
              900 (frame_at 0 ''f0.jpg'')) = None
   \<and> error (pathless_frame 1) = None"
  by (simp add: service_defs frame_defs env_defs batch_defs executor_defs json_defs
      one_frame_reply_def)

text \<open>
  Claim C5. Let the batch size and the worker count be at least 1 and the timestamps
  numbers, and let a backend be available or the input be in timestamp order. Then, in
  whatever order the event loop runs the batch tasks and whatever the model answers,
  \<^verbatim>\<open>batch_analyze_frames\<close> returns a list sorted by ascending timestamp (a frame without
  timestamp counts as 0), and the frames stand in it exactly as a stable sort of the input
  by timestamp puts them: the order of the output is a function of the input alone.
\<close>

theorem batch_analyze_frames_sorted:
  assumes "1 \<le> batch_size" and "1 \<le> max_workers"
    and "\<forall>f \<in> set frames. timestamp f \<noteq> Some TsNone"
    and "use_custom_gpt (recheck_custom_gpt e svc)
         \<or> get_openai_client e (recheck_custom_gpt e svc) c \<noteq> None
         \<or> sorted (map num_key frames)"
  shows "\<exists>rs. fst (batch_analyze_frames (e\<lparr> scheduler := order \<rparr>) svc c calls frames
                     max_workers batch_size) = Returns rs
           \<and> sorted (map num_key rs)
           \<and> map frame_source rs = map frame_source (sort_key num_key frames)"
proof -
  have "use_custom_gpt (recheck_custom_gpt (e\<lparr> scheduler := order \<rparr>) svc)
         \<or> get_openai_client (e\<lparr> scheduler := order \<rparr>)
              (recheck_custom_gpt (e\<lparr> scheduler := order \<rparr>) svc) c \<noteq> None
         \<or> sorted (map num_key frames)"
    using assms(4) by (simp add: scheduler_irrelevant)
  from batch_analyze_frames_order [OF assms(1-3) this] show ?thesis by blast
qed

text \<open>
  An instance with an input in descending order and two batches of one frame. The event
  loop runs the second task first, so the request for the frame at 0 is sent before the
  request for the frame at 1; the results come back in ascending order.
\<close>

theorem batch_analyze_frames_sorted_witness:
  "batch_analyze_frames ((openai_env two_of_three_reply)\<lparr> scheduler := last_task_first \<rparr>)
       openai_service anonymous [] [frame_at 1 ''f1.jpg'', frame_at 0 ''f0.jpg''] 5 1
     = (Returns [apply_result [(''description'', PStr ''a'')] 900 (frame_at 0 ''f0.jpg''),
                 apply_result [(''description'', PStr ''a'')] 900 (frame_at 1 ''f1.jpg'')],
        openai_service,
        [\<lparr> pl_instructions = None, pl_frame_count = 1, pl_timestamps = [TsNum 0],
           pl_images = [''JPEG''], pl_max_tokens = 4000 \<rparr>,
         \<lparr> pl_instructions = None, pl_frame_count = 1, pl_timestamps = [TsNum 1],
           pl_images = [''JPEG''], pl_max_tokens = 4000 \<rparr>])
   \<and> sorted (map num_key
         [apply_result [(''description'', PStr ''a'')] 900 (frame_at 0 ''f0.jpg''),
          apply_result [(''description'', PStr ''a'')] 900 (frame_at 1 ''f1.jpg'')])"
proof -
  let ?e = "openai_env two_of_three_reply"
  let ?frames = "[frame_at 1 ''f1.jpg'', frame_at 0 ''f0.jpg'']"
  have run: "batch_analyze_frames (?e\<lparr> scheduler := last_task_first \<rparr>)
       openai_service anonymous [] ?frames 5 1
     = (Returns [apply_result [(''description'', PStr ''a'')] 900 (frame_at 0 ''f0.jpg''),
                 apply_result [(''description'', PStr ''a'')] 900 (frame_at 1 ''f1.jpg'')],
        openai_service,
        [\<lparr> pl_instructions = None, pl_frame_count = 1, pl_timestamps = [TsNum 0],
           pl_images = [''JPEG''], pl_max_tokens = 4000 \<rparr>,
         \<lparr> pl_instructions = None, pl_frame_count = 1, pl_timestamps = [TsNum 1],
           pl_images = [''JPEG''], pl_max_tokens = 4000 \<rparr>])"
    by (simp add: service_defs frame_defs env_defs batch_defs executor_defs json_defs
        two_of_three_reply_def)
  have size: "(1 :: int) \<le> 1" and workers: "(1 :: int) \<le> 5" by simp_all
  have numeric: "\<forall>f \<in> set ?frames. timestamp f \<noteq> Some TsNone"
    by (simp add: frame_at_def)
  have backend: "use_custom_gpt (recheck_custom_gpt ?e openai_service)
      \<or> get_openai_client ?e (recheck_custom_gpt ?e openai_service) anonymous \<noteq> None
      \<or> sorted (map num_key ?frames)"
    by (simp add: service_defs env_defs)
  from batch_analyze_frames_sorted [OF size workers numeric backend,
      of last_task_first "[]"]
  obtain rs where "fst (batch_analyze_frames (?e\<lparr> scheduler := last_task_first \<rparr>)
        openai_service anonymous [] ?frames 5 1) = Returns rs"
    and "sorted (map num_key rs)"
    by blast
  with run show ?thesis by simp
qed

text \<open>
  Claim C10, amended. On the empty frame list \<^verbatim>\<open>batch_analyze_frames\<close> returns the empty
  list and sends nothing, for every backend, caller, batch size and worker count.
  \<^verbatim>\<open>analyze_frame_batch\<close> does the same when a backend is available; without one it raises
  the configuration error, and sends nothing either.
\<close>

theorem empty_input:
  "batch_analyze_frames e svc c calls [] max_workers batch_size
     = (Returns [], recheck_custom_gpt e svc, calls)
   \<and> analyze_frame_batch e svc c calls []
     = (if use_custom_gpt svc \<or> get_openai_client e svc c \<noteq> None then (Inr [], calls)
        else (Inl (ValueError not_configured), calls))"
  by (rule empty_frames)

text \<open>
  An instance with the custom backend, a negative worker count and a batch size of zero.
\<close>

theorem empty_input_witness:
  "batch_analyze_frames custom_env custom_service anonymous [] ([] :: frame list) (- 1) 0
     = (Returns [], custom_service, [])
   \<and> analyze_frame_batch custom_env custom_service anonymous [] ([] :: frame list)
     = (Inr [], [])"
  using empty_input [of custom_env custom_service anonymous "[]" "- 1" 0]
  by (simp add: service_defs env_defs)

text \<open>
  Claim C10 as stated fails for \<^verbatim>\<open>analyze_frame_batch\<close>: without a backend the empty batch
  raises.
\<close>

theorem empty_batch_unconfigured_counterexample:
  "analyze_frame_batch (openai_env one_frame_reply) unconfigured_service anonymous []
     ([] :: frame list) = (Inl (ValueError not_configured), [])"
  by (simp add: service_defs env_defs analyze_frame_batch_def)

text \<open>
  Claim C1 on the code. The custom endpoint rejects every request of more than one image
  with status 413 and would accept each frame alone. The batch of two frames is sent
  once; the exception is caught inside \<^verbatim>\<open>analyze_frame_batch\<close>, both frames are marked
  with its text, and no request of one frame follows.
\<close>

theorem oversize_batch_not_split:
  "batch_analyze_frames custom_env custom_service anonymous []
     [frame_at 0 ''f0.jpg'', frame_at 1 ''f1.jpg''] 5 10
   = (Returns [mark_batch_error (Exception payload_too_large) (frame_at 0 ''f0.jpg''),
               mark_batch_error (Exception payload_too_large) (frame_at 1 ''f1.jpg'')],
      custom_service,
      [\<lparr> pl_instructions = None, pl_frame_count = 2, pl_timestamps = [TsNum 0, TsNum 1],
         pl_images = [''JPEG'', ''JPEG''], pl_max_tokens = 4000 \<rparr>])"
  by (simp add: service_defs frame_defs env_defs batch_defs executor_defs)




text \<open>
  Claim C9 on the code. A batch in which no frame has an image path is returned as it came:
  the frame has neither an error nor a description, and no request is sent.
\<close>

theorem pathless_batch_unmarked:
  "batch_analyze_frames (openai_env one_frame_reply) openai_service anonymous []
     [pathless_frame 0] 5 10
   = (Returns [pathless_frame 0], openai_service, [])
   \<and> error (pathless_frame 0) = None \<and> description (pathless_frame 0) = None"
  by (simp add: service_defs frame_defs env_defs batch_defs executor_defs)

text \<open>
  Claim C6. Let the batch size and the worker count be at least 1, a backend be available
  and every frame have an image that can be read. Then \<^verbatim>\<open>batch_analyze_frames\<close> sends one
  request for every \<open>E\<close> frames and one for the frames that are left over, where \<open>E\<close> is
  the smaller of the requested batch size and 2 when the custom backend is active (the
  service was built with it, or the settings name it at run time), and the requested
  batch size itself with the standard backend.
\<close>

theorem custom_backend_clamps_batch_size:
  assumes "1 \<le> batch_size" and "1 \<le> max_workers"
    and "use_custom_gpt svc \<or> settings_custom_gpt e \<or> get_openai_client e svc c \<noteq> None"
    and "\<forall>f \<in> set frames. \<exists>p data. frame_image f = Some p \<and> read_file e p = Inr data"
    and "E = nat (if use_custom_gpt svc \<or> settings_custom_gpt e
                  then min batch_size 2 else batch_size)"
  shows "\<exists>new. snd (snd (batch_analyze_frames e svc c calls frames max_workers batch_size))
             = calls @ new
           \<and> mset (map pl_frame_count new)
               = mset (replicate (length frames div E) E
                       @ (if length frames mod E = 0 then [] else [length frames mod E]))"
  using assms by (rule batch_analyze_frames_requests)

text \<open>
  Two instances with the default arguments. The settings switch the standard service to
  the custom backend at run time: three frames go out as a request with two frames and a
  request with one. With the standard backend eleven frames go out as a request with ten
  frames and a request with one.
\<close>

theorem custom_backend_clamps_batch_size_witness:
  "mset (map pl_frame_count (snd (snd (batch_analyze_frames custom_env openai_service anonymous []
       [frame_at 0 ''f0.jpg'', frame_at 1 ''f1.jpg'', frame_at 2 ''f2.jpg'']
       default_max_workers default_batch_size)))) = mset [2, 1]
   \<and> mset (map pl_frame_count (snd (snd (batch_analyze_frames (openai_env one_frame_reply)
       openai_service anonymous [] (map (\<lambda>i. frame_at (of_nat i) ''frame.jpg'') [0..<11])
       default_max_workers default_batch_size)))) = mset [10, 1]"
proof -
  let ?three = "[frame_at 0 ''f0.jpg'', frame_at 1 ''f1.jpg'', frame_at 2 ''f2.jpg'']"
  let ?eleven = "map (\<lambda>i. frame_at (of_nat i) ''frame.jpg'') [0..<11]"
  have size: "1 \<le> default_batch_size" and workers: "1 \<le> default_max_workers"
    by (simp_all add: default_batch_size_def default_max_workers_def)
  have three: "length ?three = 3" by simp
  have eleven: "length ?eleven = 11" by simp
  have custom: "use_custom_gpt openai_service \<or> settings_custom_gpt custom_env
      \<or> get_openai_client custom_env openai_service anonymous \<noteq> None"
    by (simp add: env_defs)
  have custom_files: "\<forall>f \<in> set ?three. \<exists>p data. frame_image f = Some p
      \<and> read_file custom_env p = Inr data"
    by (simp add: frame_defs env_defs)
  have two: "(2 :: nat) = nat (if use_custom_gpt openai_service \<or> settings_custom_gpt custom_env
      then min default_batch_size 2 else default_batch_size)"
    by (simp add: env_defs default_batch_size_def)
  from custom_backend_clamps_batch_size [OF size workers custom custom_files two, of "[]"]
  have clamped: "mset (map pl_frame_count (snd (snd (batch_analyze_frames custom_env
      openai_service anonymous [] ?three default_max_workers default_batch_size))))
      = mset [2, 1]"
    unfolding three by simp
  have standard: "use_custom_gpt openai_service \<or> settings_custom_gpt (openai_env one_frame_reply)
      \<or> get_openai_client (openai_env one_frame_reply) openai_service anonymous \<noteq> None"
    by (simp add: service_defs env_defs)
  have standard_files: "\<forall>f \<in> set ?eleven. \<exists>p data. frame_image f = Some p
      \<and> read_file (openai_env one_frame_reply) p = Inr data"
    by (simp add: frame_defs env_defs)
  have ten: "(10 :: nat) = nat (if use_custom_gpt openai_service
        \<or> settings_custom_gpt (openai_env one_frame_reply)
      then min default_batch_size 2 else default_batch_size)"
    by (simp add: service_defs env_defs default_batch_size_def)
  from custom_backend_clamps_batch_size [OF size workers standard standard_files ten, of "[]"]
  have unchanged: "mset (map pl_frame_count (snd (snd (batch_analyze_frames
      (openai_env one_frame_reply) openai_service anonymous [] ?eleven
      default_max_workers default_batch_size)))) = mset [10, 1]"
    unfolding eleven by simp
  from clamped unchanged show ?thesis by (rule conjI)
qed

section \<open>Properties of the Response Interpreter\<close>































section \<open>The claim about the repair path\<close>




end
